theory Spec2Isabelle
  imports Main "HOL-Library.Sublist"
begin

section \<open>Data model of the create-post component\<close>

text \<open>
  The component under study is \<^verbatim>\<open>src/app/create-post/VideoUploadComponent.tsx\<close>.
  An earlier revision of the same component is kept in the repository as well
  (\<^verbatim>\<open>src/unnamed/part_000\<close>); where the two differ on a path that a property is about,
  the earlier one is embedded next to the current one under a name ending in \<open>_part_000\<close>.
\<close>

text \<open>\<^verbatim>\<open>type ProcessingState = "processing" | "posted" | "error"\<close>\<close>

datatype ProcessingState = Processing | Posted | Error

text \<open>
  Rows of the tables \<^verbatim>\<open>instagram-accounts\<close> and \<^verbatim>\<open>youtube-channels\<close>. Only the columns
  that the logic reads are kept (the others are only rendered). The row key \<^verbatim>\<open>id\<close> and
  the column \<^verbatim>\<open>instagram_business_account_id\<close> are two different columns.
\<close>

record instagram_account =
  account_id :: string
  instagram_business_account_id :: string

record youtube_channel =
  channel_id :: string

text \<open>A browser \<^verbatim>\<open>File\<close>, and an entry of the \<^verbatim>\<open>files\<close> state.\<close>

record media_file =
  file_name :: string
  file_type :: string

record file_entry =
  entry_file :: media_file
  errorMessage :: string

text \<open>
  A JavaScript object used as a dictionary is an association list here: the submit
  button enumerates its values. A lookup is \<^const>\<open>map_of\<close>.
\<close>

type_synonym state_mapping = "(string \<times> ProcessingState) list"

text \<open>
  The values that the closures of one render see: props and \<^verbatim>\<open>useState\<close> values. The
  two state mappings are the only ones written while a post is being published.
\<close>

record component =
  userId :: string
  selectedInstagramAccounts :: "instagram_account list"
  selectedYoutubeChannels :: "youtube_channel list"
  files :: "file_entry list"
  instagramAccountIdToProcessingState :: state_mapping
  youtubeChannelIdToProcessingState :: state_mapping
  youtubeTitle :: string
  caption :: string

section \<open>The collaborators\<close>

text \<open>
  Every remote operation is a parameter: a function from the arguments of the call to
  its outcome. A promise that rejects is \<open>None\<close> (or \<open>False\<close> where the resolved value
  is not used). The storage client resolves to a pair of \<^verbatim>\<open>data\<close> and \<^verbatim>\<open>error\<close>; the
  \<^verbatim>\<open>fetch\<close> of the YouTube route either rejects or resolves to a response with its
  \<^verbatim>\<open>ok\<close> flag.
\<close>

datatype storage_response = StorageError | StorageData "string option"

datatype fetch_result = FetchRejected | FetchResponse bool

record env =
  bucketName :: "string option"
  createSocialMediaPost :: "string \<Rightarrow> string option"
  storage_upload :: "string \<Rightarrow> string \<Rightarrow> storage_response"
  insert_media_file :: "string \<Rightarrow> string \<Rightarrow> string \<Rightarrow> bool"
  createInstagramContainer ::
    "string \<Rightarrow> string \<Rightarrow> string option \<Rightarrow> string \<Rightarrow> string \<Rightarrow> bool \<Rightarrow> string option"
  checkInstagramContainerStatus :: "string list \<Rightarrow> string \<Rightarrow> string \<Rightarrow> bool"
  createInstagramCarouselContainer ::
    "string list \<Rightarrow> string \<Rightarrow> string \<Rightarrow> string \<Rightarrow> string option"
  publishInstagramMediaContainer :: "string \<Rightarrow> string \<Rightarrow> string \<Rightarrow> string option"
  saveInstagramId :: "string \<Rightarrow> string \<Rightarrow> string \<Rightarrow> string \<Rightarrow> bool"
  fetch_youtube_post :: "string \<Rightarrow> media_file \<Rightarrow> string \<Rightarrow> string \<Rightarrow> string \<Rightarrow> fetch_result"
  postVideoToYoutube :: "string \<Rightarrow> media_file \<Rightarrow> string \<Rightarrow> string \<Rightarrow> string \<Rightarrow> bool"

text \<open>
  What the component does to the outside, in the order in which it does it: the remote
  calls it issues (with their arguments, in the order of the source's parameter objects)
  and the two state setters, each with the object it is called with.

  Argument order: \<open>CreateInstagramContainer\<close> account, path, caption, user, post type,
  carousel-item flag; \<open>CheckInstagramContainerStatus\<close> container ids, account, user;
  \<open>CreateInstagramCarouselContainer\<close> item ids, account, user, caption;
  \<open>PublishInstagramMediaContainer\<close> container, account, user; \<open>SaveInstagramId\<close> media id,
  parent post, caption, user; \<open>FetchYoutubePost\<close> and \<open>PostVideoToYoutube\<close> channel, video,
  title, user, parent post.
\<close>

datatype event =
    CreateSocialMediaPost string
  | StorageUpload string string
  | InsertMediaFile string string string
  | CreateInstagramContainer string string "string option" string string bool
  | CheckInstagramContainerStatus "string list" string string
  | CreateInstagramCarouselContainer "string list" string string string
  | PublishInstagramMediaContainer string string string
  | SaveInstagramId string string string string
  | FetchYoutubePost string media_file string string string
  | PostVideoToYoutube string media_file string string string
  | SetInstagramAccountIdToProcessingState state_mapping
  | SetYoutubeChannelIdToProcessingState state_mapping

text \<open>
  An asynchronous task is a pair: the events it issues synchronously when it is started,
  and the events it issues later, as its promises settle. The later events of several
  tasks interleave.
\<close>

type_synonym task = "event list \<times> event list"

text \<open>
  Tasks started one after the other in one synchronous block: their synchronous events
  in the order of the starts, then their later events, interleaved in any way.
\<close>

type_synonym phase = "event list \<times> event list list"

definition start_all :: "task list \<Rightarrow> phase" where
  "start_all ts = (concat (map fst ts), map snd ts)"

section \<open>Strings\<close>

text \<open>\<^verbatim>\<open>s.includes(sub)\<close>\<close>

fun includes_str :: "string \<Rightarrow> string \<Rightarrow> bool" where
  "includes_str [] sub = (sub = [])"
| "includes_str (c # cs) sub = (take (length sub) (c # cs) = sub \<or> includes_str cs sub)"

text \<open>\<^verbatim>\<open>file.type.includes("video") ? "video" : "image"\<close>\<close>

definition post_type :: "string \<Rightarrow> string" where
  "post_type t = (if includes_str t ''video'' then ''video'' else ''image'')"

text \<open>
  \<^verbatim>\<open>name.split(".").pop()\<close>: what follows the last dot, the whole name when it has none
  (the array that \<^verbatim>\<open>split\<close> returns is never empty, so \<^verbatim>\<open>?? file.name\<close> is never taken).
\<close>

definition extension :: "string \<Rightarrow> string" where
  "extension name = rev (takeWhile (\<lambda>c. c \<noteq> CHR ''.'') (rev name))"

text \<open>The decimal digits of an array index, as a template string prints it.\<close>

fun string_of_nat :: "nat \<Rightarrow> string" where
  "string_of_nat n =
     (if n < 10 then [char_of (48 + n)]
      else string_of_nat (n div 10) @ [char_of (48 + n mod 10)])"

declare string_of_nat.simps [simp del]

section \<open>Upload\<close>

datatype upload_error = NoBucketName | UploadFailed | NoFilePath | InsertFailed

text \<open>The storage path \<^verbatim>\<open>`${userId}/${postId}/${index}.${extension}`\<close>.\<close>

definition upload_path :: "string \<Rightarrow> string \<Rightarrow> nat \<Rightarrow> media_file \<Rightarrow> string" where
  "upload_path uid postId index f =
     uid @ ''/'' @ postId @ ''/'' @ string_of_nat index @ ''.'' @ extension (file_name f)"

text \<open>
  \<^verbatim>\<open>uploadSocialMediaPostFile\<close>: the task and what its promise settles to (\<open>Inl\<close> for each
  \<^verbatim>\<open>throw\<close>). An empty string is falsy, for the bucket name as for the returned path.
\<close>

definition uploadSocialMediaPostFile ::
  "env \<Rightarrow> string \<Rightarrow> media_file \<Rightarrow> nat \<Rightarrow> string \<Rightarrow> task \<times> (upload_error + string)" where
  "uploadSocialMediaPostFile e uid f index postId =
     (case bucketName e of
        None \<Rightarrow> (([], []), Inl NoBucketName)
      | Some b \<Rightarrow>
          (if b = [] then (([], []), Inl NoBucketName)
           else
             (let filePath = upload_path uid postId index f
              in (case storage_upload e b filePath of
                    StorageError \<Rightarrow> (([StorageUpload b filePath], []), Inl UploadFailed)
                  | StorageData None \<Rightarrow> (([StorageUpload b filePath], []), Inl NoFilePath)
                  | StorageData (Some p) \<Rightarrow>
                      (if p = [] then (([StorageUpload b filePath], []), Inl NoFilePath)
                       else if \<not> insert_media_file e p postId uid
                       then (([StorageUpload b filePath], [InsertMediaFile p postId uid]),
                             Inl InsertFailed)
                       else (([StorageUpload b filePath], [InsertMediaFile p postId uid]),
                             Inr p))))))"

text \<open>\<^verbatim>\<open>Promise.all\<close>: the list of the values when every promise resolves.\<close>

fun promise_all :: "('e + 'a) list \<Rightarrow> 'e + 'a list" where
  "promise_all [] = Inr []"
| "promise_all (Inl err # rs) = Inl err"
| "promise_all (Inr v # rs) = (case promise_all rs of Inl err \<Rightarrow> Inl err | Inr vs \<Rightarrow> Inr (v # vs))"

section \<open>The destination workflows\<close>

text \<open>
  The Instagram chain of \<^verbatim>\<open>processSingleSocialMediaPost\<close>. The callback that follows the
  status check has a block body that does not return the promise of the publish call:
  the chain that \<^verbatim>\<open>.catch\<close> hangs on resolves there, and a rejected publish reaches no
  handler. \<^verbatim>\<open>saveInstagramId\<close> is called and its promise dropped.
\<close>

definition instagram_single_workflow ::
  "env \<Rightarrow> component \<Rightarrow> string \<Rightarrow> string \<Rightarrow> media_file \<Rightarrow> instagram_account \<Rightarrow> task" where
  "instagram_single_workflow e c postId filePath f account =
     (let a = instagram_business_account_id account;
          u = userId c;
          pt = post_type (file_type f)
      in ([SetInstagramAccountIdToProcessingState [(a, Processing)],
           CreateInstagramContainer a filePath (Some (caption c)) u pt False],
          (case createInstagramContainer e a filePath (Some (caption c)) u pt False of
             None \<Rightarrow> [SetInstagramAccountIdToProcessingState [(a, Error)]]
           | Some containerId \<Rightarrow>
               CheckInstagramContainerStatus [containerId] a u #
               (if \<not> checkInstagramContainerStatus e [containerId] a u
                then [SetInstagramAccountIdToProcessingState [(a, Error)]]
                else PublishInstagramMediaContainer containerId a u #
                  (case publishInstagramMediaContainer e containerId a u of
                     None \<Rightarrow> []
                   | Some instagramMediaId \<Rightarrow>
                       [SaveInstagramId instagramMediaId postId (caption c) u,
                        SetInstagramAccountIdToProcessingState [(a, Posted)]])))))"

text \<open>
  The Instagram chain of \<^verbatim>\<open>processCarouselSocialMediaPost\<close>. The item containers are
  requested by a \<^verbatim>\<open>map\<close> inside \<^verbatim>\<open>Promise.all\<close>, so all the requests are issued when the
  workflow starts; every later step is returned to the chain that \<^verbatim>\<open>.catch\<close> hangs on.
\<close>

definition instagram_carousel_workflow ::
  "env \<Rightarrow> component \<Rightarrow> string \<Rightarrow> (string \<times> string) list \<Rightarrow> instagram_account \<Rightarrow> task" where
  "instagram_carousel_workflow e c postId filePaths account =
     (let a = instagram_business_account_id account;
          u = userId c
      in (SetInstagramAccountIdToProcessingState [(a, Processing)] #
          map (\<lambda>(filePath, postType).
                 CreateInstagramContainer a filePath None u (post_type postType) True) filePaths,
          (case those (map (\<lambda>(filePath, postType).
                  createInstagramContainer e a filePath None u (post_type postType) True)
                  filePaths) of
             None \<Rightarrow> [SetInstagramAccountIdToProcessingState [(a, Error)]]
           | Some ids \<Rightarrow>
               CheckInstagramContainerStatus ids a u #
               (if \<not> checkInstagramContainerStatus e ids a u
                then [SetInstagramAccountIdToProcessingState [(a, Error)]]
                else CreateInstagramCarouselContainer ids a u (caption c) #
                  (case createInstagramCarouselContainer e ids a u (caption c) of
                     None \<Rightarrow> [SetInstagramAccountIdToProcessingState [(a, Error)]]
                   | Some instagramMediaContainerId \<Rightarrow>
                       CheckInstagramContainerStatus [instagramMediaContainerId] a u #
                       (if \<not> checkInstagramContainerStatus e [instagramMediaContainerId] a u
                        then [SetInstagramAccountIdToProcessingState [(a, Error)]]
                        else PublishInstagramMediaContainer instagramMediaContainerId a u #
                          (case publishInstagramMediaContainer e instagramMediaContainerId a u of
                             None \<Rightarrow> [SetInstagramAccountIdToProcessingState [(a, Error)]]
                           | Some instagramMediaId \<Rightarrow>
                               [SaveInstagramId instagramMediaId postId (caption c) u,
                                SetInstagramAccountIdToProcessingState [(a, Posted)]])))))))"

text \<open>
  The YouTube part of \<^verbatim>\<open>processSingleSocialMediaPost\<close>: a \<^verbatim>\<open>fetch\<close> with one \<^verbatim>\<open>.then\<close>
  and no \<^verbatim>\<open>.catch\<close>.
\<close>

definition youtube_workflow ::
  "env \<Rightarrow> component \<Rightarrow> string \<Rightarrow> media_file \<Rightarrow> youtube_channel \<Rightarrow> task" where
  "youtube_workflow e c postId f channel =
     (let ch = channel_id channel
      in ([SetYoutubeChannelIdToProcessingState [(ch, Processing)],
           FetchYoutubePost ch f (youtubeTitle c) (userId c) postId],
          (case fetch_youtube_post e ch f (youtubeTitle c) (userId c) postId of
             FetchRejected \<Rightarrow> []
           | FetchResponse ok \<Rightarrow>
               if ok then [SetYoutubeChannelIdToProcessingState [(ch, Posted)]]
               else [SetYoutubeChannelIdToProcessingState [(ch, Error)]])))"

text \<open>
  The same part in the earlier revision: the server action \<^verbatim>\<open>postVideoToYoutube\<close> with
  \<^verbatim>\<open>.then\<close> and \<^verbatim>\<open>.catch\<close>.
\<close>

definition youtube_workflow_part_000 ::
  "env \<Rightarrow> component \<Rightarrow> string \<Rightarrow> media_file \<Rightarrow> youtube_channel \<Rightarrow> task" where
  "youtube_workflow_part_000 e c postId f channel =
     (let ch = channel_id channel
      in ([SetYoutubeChannelIdToProcessingState [(ch, Processing)],
           PostVideoToYoutube ch f (youtubeTitle c) (userId c) postId],
          (if postVideoToYoutube e ch f (youtubeTitle c) (userId c) postId
           then [SetYoutubeChannelIdToProcessingState [(ch, Posted)]]
           else [SetYoutubeChannelIdToProcessingState [(ch, Error)]])))"

section \<open>The publish entry point\<close>

text \<open>
  \<^verbatim>\<open>processSingleSocialMediaPost\<close>: \<^verbatim>\<open>files[0].file\<close> throws on an empty selection;
  the upload is awaited, and a rejected upload ends the function.
\<close>

definition processSingleSocialMediaPost :: "env \<Rightarrow> component \<Rightarrow> string \<Rightarrow> phase list" where
  "processSingleSocialMediaPost e c postId =
     (case files c of
        [] \<Rightarrow> []
      | entry # _ \<Rightarrow>
          (let f = entry_file entry;
               up = uploadSocialMediaPostFile e (userId c) f 0 postId
           in (case snd up of
                 Inl err \<Rightarrow> [start_all [fst up]]
               | Inr filePath \<Rightarrow>
                   [start_all [fst up],
                    start_all
                      (map (instagram_single_workflow e c postId filePath f)
                         (selectedInstagramAccounts c) @
                       map (youtube_workflow e c postId f) (selectedYoutubeChannels c))])))"

text \<open>
  The uploads of \<^verbatim>\<open>processCarouselSocialMediaPost\<close>: one \<^verbatim>\<open>map\<close> starts the upload of
  every file, and each promise resolves to the pair of the stored path and the post type.
\<close>

definition upload_all ::
  "env \<Rightarrow> component \<Rightarrow> string \<Rightarrow> (task \<times> (upload_error + string \<times> string)) list" where
  "upload_all e c postId =
     map (\<lambda>(index, entry).
            let up = uploadSocialMediaPostFile e (userId c) (entry_file entry) index postId
            in (fst up,
                (case snd up of
                   Inl err \<Rightarrow> Inl err
                 | Inr filePath \<Rightarrow> Inr (filePath, post_type (file_type (entry_file entry))))))
       (enumerate 0 (files c))"

text \<open>
  \<^verbatim>\<open>processCarouselSocialMediaPost\<close>: the uploads are awaited together, and nothing
  follows when one of them rejects. No YouTube channel is read here.
\<close>

definition processCarouselSocialMediaPost :: "env \<Rightarrow> component \<Rightarrow> string \<Rightarrow> phase list" where
  "processCarouselSocialMediaPost e c postId =
     (let ups = upload_all e c postId
      in (case promise_all (map snd ups) of
            Inl err \<Rightarrow> [start_all (map fst ups)]
          | Inr filePaths \<Rightarrow>
              [start_all (map fst ups),
               start_all (map (instagram_carousel_workflow e c postId filePaths)
                            (selectedInstagramAccounts c))]))"

text \<open>The branch that \<^verbatim>\<open>processSocialMediaPost\<close> takes once the post record exists.\<close>

datatype branch = SinglePost | CarouselPost | NoPost

definition branch_of :: "component \<Rightarrow> branch" where
  "branch_of c =
     (if length (files c) = 1 then SinglePost
      else if length (files c) > 1 then CarouselPost
      else NoPost)"

text \<open>
  \<^verbatim>\<open>processSocialMediaPost\<close>, the action of the form: the post record is requested
  first, and the file count is read in the callback.
\<close>

definition processSocialMediaPost :: "env \<Rightarrow> component \<Rightarrow> phase list" where
  "processSocialMediaPost e c =
     ([CreateSocialMediaPost (userId c)], []) #
     (case createSocialMediaPost e (userId c) of
        None \<Rightarrow> []
      | Some socialMediaPostId \<Rightarrow>
          (case branch_of c of
             SinglePost \<Rightarrow> processSingleSocialMediaPost e c socialMediaPostId
           | CarouselPost \<Rightarrow> processCarouselSocialMediaPost e c socialMediaPostId
           | NoPost \<Rightarrow> []))"

section \<open>Runs\<close>

text \<open>
  \<open>is_interleaving xss ys\<close>: \<open>ys\<close> takes every list of \<open>xss\<close> from its head to its end,
  in any order between the lists. The callbacks of the promises of one block run in such
  an order: each chain in its own order, the chains in any order.
\<close>

fun is_interleaving :: "'a list list \<Rightarrow> 'a list \<Rightarrow> bool" where
  "is_interleaving xss [] = list_all (\<lambda>xs. xs = []) xss"
| "is_interleaving xss (y # ys) =
     list_ex (\<lambda>i. case xss ! i of
                     [] \<Rightarrow> False
                   | x # xs \<Rightarrow> x = y \<and> is_interleaving (xss[i := xs]) ys)
       [0..<length xss]"

text \<open>
  A run of a list of phases: each phase issues its synchronous events, then the later
  events of its tasks in some interleaving; the next phase starts when all of them are
  done (it is behind an \<^verbatim>\<open>await\<close>).
\<close>

fun is_trace :: "phase list \<Rightarrow> event list \<Rightarrow> bool" where
  "is_trace [] tr = (tr = [])"
| "is_trace (ph # phs) tr =
     (let n = length (fst ph); m = length (concat (snd ph))
      in take n tr = fst ph \<and>
         is_interleaving (snd ph) (take m (drop n tr)) \<and>
         is_trace phs (drop (n + m) tr))"

text \<open>
  The setters that \<^verbatim>\<open>useState\<close> returns, called with a value (not with an updater
  function): the value becomes the state.
\<close>

definition setInstagramAccountIdToProcessingState :: "state_mapping \<Rightarrow> component \<Rightarrow> component" where
  "setInstagramAccountIdToProcessingState v c = c\<lparr>instagramAccountIdToProcessingState := v\<rparr>"

definition setYoutubeChannelIdToProcessingState :: "state_mapping \<Rightarrow> component \<Rightarrow> component" where
  "setYoutubeChannelIdToProcessingState v c = c\<lparr>youtubeChannelIdToProcessingState := v\<rparr>"

fun apply_event :: "event \<Rightarrow> component \<Rightarrow> component" where
  "apply_event (SetInstagramAccountIdToProcessingState v) c =
     setInstagramAccountIdToProcessingState v c"
| "apply_event (SetYoutubeChannelIdToProcessingState v) c =
     setYoutubeChannelIdToProcessingState v c"
| "apply_event _ c = c"

text \<open>The component after the events of a run (after the first \<open>n\<close>: \<open>replay (take n tr) c\<close>).\<close>

definition replay :: "event list \<Rightarrow> component \<Rightarrow> component" where
  "replay tr c = fold apply_event tr c"

text \<open>The run in which every task finishes before the next one goes on.\<close>

definition sequential :: "phase list \<Rightarrow> event list" where
  "sequential phs = concat (map (\<lambda>ph. fst ph @ concat (snd ph)) phs)"

section \<open>Selection and submission\<close>

text \<open>The \<^verbatim>\<open>onClick\<close> of an Instagram account tile.\<close>

definition toggleInstagramAccount ::
  "instagram_account \<Rightarrow> instagram_account list \<Rightarrow> instagram_account list" where
  "toggleInstagramAccount account prev =
     (if find (\<lambda>acc. account_id acc = instagram_business_account_id account) prev \<noteq> None
      then filter (\<lambda>acc. account_id acc \<noteq> instagram_business_account_id account) prev
      else prev @ [account])"

text \<open>The same handler in the earlier revision.\<close>

definition toggleInstagramAccount_part_000 ::
  "instagram_account \<Rightarrow> instagram_account list \<Rightarrow> instagram_account list" where
  "toggleInstagramAccount_part_000 account prev =
     (if find (\<lambda>acc. account_id acc = account_id account) prev \<noteq> None
      then filter (\<lambda>acc. account_id acc \<noteq> account_id account) prev
      else prev @ [account])"

text \<open>The \<^verbatim>\<open>onClick\<close> of a YouTube channel tile.\<close>

definition toggleYoutubeChannel ::
  "youtube_channel \<Rightarrow> youtube_channel list \<Rightarrow> youtube_channel list" where
  "toggleYoutubeChannel channel prev =
     (if find (\<lambda>acc. channel_id acc = channel_id channel) prev \<noteq> None
      then filter (\<lambda>acc. channel_id acc \<noteq> channel_id channel) prev
      else prev @ [channel])"

text \<open>The selection after a sequence of clicks, from the empty selection.\<close>

definition clicks :: "instagram_account list \<Rightarrow> instagram_account list" where
  "clicks accounts = fold toggleInstagramAccount accounts []"

text \<open>The \<^verbatim>\<open>disabled\<close> attribute of the submit button.\<close>

definition submit_disabled :: "component \<Rightarrow> bool" where
  "submit_disabled c =
     ((length (selectedInstagramAccounts c) = 0 \<and> length (selectedYoutubeChannels c) = 0) \<or>
      length (files c) = 0 \<or>
      list_ex (\<lambda>entry. errorMessage entry \<noteq> []) (files c) \<or>
      (length (selectedYoutubeChannels c) > 0 \<and> length (youtubeTitle c) = 0) \<or>
      (length (selectedYoutubeChannels c) > 0 \<and> length (youtubeTitle c) > 100) \<or>
      list_ex (\<lambda>state. state = Processing) (map snd (instagramAccountIdToProcessingState c)) \<or>
      list_ex (\<lambda>state. state = Processing) (map snd (youtubeChannelIdToProcessingState c)))"

section \<open>Kinds of events\<close>

text \<open>The events of the upload step, and the events of a destination workflow.\<close>

fun is_upload_event :: "event \<Rightarrow> bool" where
  "is_upload_event (StorageUpload b p) = True"
| "is_upload_event (InsertMediaFile p q u) = True"
| "is_upload_event _ = False"

fun is_destination_event :: "event \<Rightarrow> bool" where
  "is_destination_event (CreateSocialMediaPost u) = False"
| "is_destination_event (StorageUpload b p) = False"
| "is_destination_event (InsertMediaFile p q u) = False"
| "is_destination_event _ = True"

fun is_container_request :: "event \<Rightarrow> bool" where
  "is_container_request (CreateInstagramContainer a p cap u t item) = True"
| "is_container_request _ = False"

text \<open>
  The events of a single-item post: no request for an aggregate container, and every
  container request with the carousel-item flag off and the caption attached.
\<close>

fun single_item_event :: "string \<Rightarrow> event \<Rightarrow> bool" where
  "single_item_event capt (CreateInstagramCarouselContainer ids a u cap) = False"
| "single_item_event capt (CreateInstagramContainer a p cap u t item) =
     (\<not> item \<and> cap = Some capt)"
| "single_item_event capt _ = True"

text \<open>The writes to each of the two state mappings.\<close>

fun is_instagram_write :: "event \<Rightarrow> bool" where
  "is_instagram_write (SetInstagramAccountIdToProcessingState v) = True"
| "is_instagram_write _ = False"

fun is_youtube_write :: "event \<Rightarrow> bool" where
  "is_youtube_write (SetYoutubeChannelIdToProcessingState v) = True"
| "is_youtube_write _ = False"

text \<open>The events of a YouTube workflow, in either revision.\<close>

fun is_youtube_event :: "event \<Rightarrow> bool" where
  "is_youtube_event (FetchYoutubePost ch f t u p) = True"
| "is_youtube_event (PostVideoToYoutube ch f t u p) = True"
| "is_youtube_event (SetYoutubeChannelIdToProcessingState v) = True"
| "is_youtube_event _ = False"

fun is_publish :: "event \<Rightarrow> bool" where
  "is_publish (PublishInstagramMediaContainer cid a u) = True"
| "is_publish _ = False"

fun is_persist :: "event \<Rightarrow> bool" where
  "is_persist (SaveInstagramId m p cap u) = True"
| "is_persist _ = False"

text \<open>Whether the call that an event stands for fails, with the given collaborators.\<close>

fun step_failed :: "env \<Rightarrow> event \<Rightarrow> bool" where
  "step_failed e (CreateInstagramContainer a p cap u t item) =
     (createInstagramContainer e a p cap u t item = None)"
| "step_failed e (CheckInstagramContainerStatus ids a u) =
     (\<not> checkInstagramContainerStatus e ids a u)"
| "step_failed e (CreateInstagramCarouselContainer ids a u cap) =
     (createInstagramCarouselContainer e ids a u cap = None)"
| "step_failed e (PublishInstagramMediaContainer cid a u) =
     (publishInstagramMediaContainer e cid a u = None)"
| "step_failed e (SaveInstagramId m p cap u) = (\<not> saveInstagramId e m p cap u)"
| "step_failed e _ = False"

text \<open>
  Whether the upload of the file at an index fails, and whether every upload of the
  selection succeeds.
\<close>

definition upload_fails :: "env \<Rightarrow> component \<Rightarrow> string \<Rightarrow> nat \<Rightarrow> bool" where
  "upload_fails e c postId i =
     isl (snd (uploadSocialMediaPostFile e (userId c) (entry_file (files c ! i)) i postId))"

text \<open>
  Whether, for the file at an index, the storage client answers with an error or the
  insert of the metadata row does.
\<close>

definition storage_or_insert_fails :: "env \<Rightarrow> component \<Rightarrow> string \<Rightarrow> nat \<Rightarrow> bool" where
  "storage_or_insert_fails e c postId i =
     (case bucketName e of
        None \<Rightarrow> False
      | Some b \<Rightarrow>
          (case storage_upload e b (upload_path (userId c) postId i (entry_file (files c ! i))) of
             StorageError \<Rightarrow> True
           | StorageData None \<Rightarrow> False
           | StorageData (Some p) \<Rightarrow> \<not> insert_media_file e p postId (userId c)))"

text \<open>What a workflow does after the first occurrence of an event.\<close>

definition after :: "event \<Rightarrow> event list \<Rightarrow> event list" where
  "after ev evs = tl (dropWhile (\<lambda>x. x \<noteq> ev) evs)"

section \<open>Scenarios\<close>

text \<open>Collaborators that all succeed, and the data of the concrete runs below.\<close>

definition env_ok :: env where
  "env_ok =
     \<lparr>bucketName = Some ''media'',
      createSocialMediaPost = (\<lambda>u. Some ''p1''),
      storage_upload = (\<lambda>b p. StorageData (Some p)),
      insert_media_file = (\<lambda>p q u. True),
      createInstagramContainer = (\<lambda>a p cap u t item. Some (''c'' @ p)),
      checkInstagramContainerStatus = (\<lambda>ids a u. True),
      createInstagramCarouselContainer = (\<lambda>ids a u cap. Some ''agg''),
      publishInstagramMediaContainer = (\<lambda>cid a u. Some ''m''),
      saveInstagramId = (\<lambda>m p cap u. True),
      fetch_youtube_post = (\<lambda>ch f t u p. FetchResponse True),
      postVideoToYoutube = (\<lambda>ch f t u p. True)\<rparr>"

definition account_a :: instagram_account where
  "account_a = \<lparr>account_id = ''row-a'', instagram_business_account_id = ''iga''\<rparr>"

definition account_b :: instagram_account where
  "account_b = \<lparr>account_id = ''row-b'', instagram_business_account_id = ''igb''\<rparr>"

definition channel_y :: youtube_channel where
  "channel_y = \<lparr>channel_id = ''yt1''\<rparr>"

definition video_entry :: file_entry where
  "video_entry =
     \<lparr>entry_file = \<lparr>file_name = ''clip.mp4'', file_type = ''video/mp4''\<rparr>, errorMessage = []\<rparr>"

definition image_entry :: file_entry where
  "image_entry =
     \<lparr>entry_file = \<lparr>file_name = ''pic.jpg'', file_type = ''image/jpeg''\<rparr>, errorMessage = []\<rparr>"

text \<open>The component as it is mounted: every \<^verbatim>\<open>useState\<close> at its initial value.\<close>

definition mounted :: component where
  "mounted =
     \<lparr>userId = ''u'', selectedInstagramAccounts = [], selectedYoutubeChannels = [], files = [],
      instagramAccountIdToProcessingState = [], youtubeChannelIdToProcessingState = [],
      youtubeTitle = [], caption = []\<rparr>"

text \<open>One video, two Instagram accounts, every collaborator succeeding.\<close>

definition two_accounts :: component where
  "two_accounts =
     mounted\<lparr>files := [video_entry], selectedInstagramAccounts := [account_a, account_b],
       caption := ''hi''\<rparr>"

text \<open>
  An image and a video, one Instagram account and one YouTube channel; and a storage
  service that refuses the second file.
\<close>

definition carousel_post :: component where
  "carousel_post =
     mounted\<lparr>files := [image_entry, video_entry], selectedInstagramAccounts := [account_a],
       selectedYoutubeChannels := [channel_y], youtubeTitle := ''t'', caption := ''hi''\<rparr>"

definition env_storage_down :: env where
  "env_storage_down =
     env_ok\<lparr>storage_upload :=
       (\<lambda>b p. if p = ''u/p1/1.mp4'' then StorageError else StorageData (Some p))\<rparr>"

text \<open>One video, one Instagram account and one YouTube channel.\<close>

definition single_both :: component where
  "single_both =
     mounted\<lparr>files := [video_entry], selectedInstagramAccounts := [account_a],
       selectedYoutubeChannels := [channel_y], youtubeTitle := ''t'', caption := ''hi''\<rparr>"

text \<open>One video, one Instagram account, and a database that refuses the media id.\<close>

definition one_account :: component where
  "one_account =
     mounted\<lparr>files := [video_entry], selectedInstagramAccounts := [account_a],
       caption := ''hi''\<rparr>"

definition env_persist_down :: env where
  "env_persist_down = env_ok\<lparr>saveInstagramId := (\<lambda>m p cap u. False)\<rparr>"

text \<open>A provider that refuses to publish.\<close>

definition env_publish_down :: env where
  "env_publish_down = env_ok\<lparr>publishInstagramMediaContainer := (\<lambda>cid a u. None)\<rparr>"

text \<open>A provider that refuses the second item of a carousel.\<close>

definition env_item_refused :: env where
  "env_item_refused =
     env_ok\<lparr>createInstagramContainer :=
       (\<lambda>a p cap u t item. if p = ''u/p1/1.mp4'' then None else Some (''c'' @ p))\<rparr>"

text \<open>One video, one YouTube channel, and a request that fails before any response.\<close>

definition youtube_only :: component where
  "youtube_only =
     mounted\<lparr>files := [video_entry], selectedYoutubeChannels := [channel_y],
       youtubeTitle := ''t''\<rparr>"

definition env_youtube_down :: env where
  "env_youtube_down =
     env_ok\<lparr>fetch_youtube_post := (\<lambda>ch f t u p. FetchRejected),
       postVideoToYoutube := (\<lambda>ch f t u p. False)\<rparr>"

section \<open>Interleavings and runs\<close>

lemma is_interleaving_Nil: "is_interleaving xss [] \<longleftrightarrow> (\<forall>xs\<in>set xss. xs = [])"
  by (simp add: list_all_iff)

lemma is_interleaving_Cons:
  "is_interleaving xss (y # ys) \<longleftrightarrow>
     (\<exists>i<length xss. \<exists>xs. xss ! i = y # xs \<and> is_interleaving (xss[i := xs]) ys)"
proof
  assume "is_interleaving xss (y # ys)"
  then obtain i where i: "i < length xss"
    and c: "case xss ! i of [] \<Rightarrow> False | x # xs \<Rightarrow> x = y \<and> is_interleaving (xss[i := xs]) ys"
    by (auto simp: list_ex_iff)
  from c obtain xs where "xss ! i = y # xs" "is_interleaving (xss[i := xs]) ys"
    by (cases "xss ! i") auto
  with i show "\<exists>i<length xss. \<exists>xs. xss ! i = y # xs \<and> is_interleaving (xss[i := xs]) ys"
    by blast
next
  assume "\<exists>i<length xss. \<exists>xs. xss ! i = y # xs \<and> is_interleaving (xss[i := xs]) ys"
  then obtain i xs where "i < length xss" "xss ! i = y # xs" "is_interleaving (xss[i := xs]) ys"
    by blast
  then have "\<exists>i\<in>set [0..<length xss].
      case xss ! i of [] \<Rightarrow> False | x # xs \<Rightarrow> x = y \<and> is_interleaving (xss[i := xs]) ys"
    by (intro bexI [of _ i]) simp_all
  then show "is_interleaving xss (y # ys)"
    by (simp add: list_ex_iff)
qed

lemma concat_nth_split:
  "i < length xss \<Longrightarrow> concat xss = concat (take i xss) @ xss ! i @ concat (drop (Suc i) xss)"
proof -
  assume "i < length xss"
  then have "xss = take i xss @ xss ! i # drop (Suc i) xss"
    by (rule id_take_nth_drop)
  then have "concat xss = concat (take i xss @ xss ! i # drop (Suc i) xss)"
    by simp
  then show ?thesis by simp
qed

lemma concat_upd_split:
  "i < length xss \<Longrightarrow> concat (xss[i := xs]) = concat (take i xss) @ xs @ concat (drop (Suc i) xss)"
  by (simp add: upd_conv_take_nth_drop)

lemma is_interleaving_set:
  "is_interleaving xss ys \<Longrightarrow> set ys = set (concat xss)"
proof (induction ys arbitrary: xss)
  case Nil
  then show ?case by (auto simp: list_all_iff)
next
  case (Cons y ys)
  then obtain i xs where i: "i < length xss" "xss ! i = y # xs"
    and r: "is_interleaving (xss[i := xs]) ys"
    unfolding is_interleaving_Cons by blast
  have "set (concat xss) = insert y (set (concat (xss[i := xs])))"
    using i by (simp add: concat_nth_split [OF i(1)] concat_upd_split [OF i(1)] del: set_concat)
  with Cons.IH [OF r] show ?case by simp
qed

lemma is_interleaving_length:
  "is_interleaving xss ys \<Longrightarrow> length ys = length (concat xss)"
proof (induction ys arbitrary: xss)
  case Nil
  then show ?case by (auto simp: list_all_iff)
next
  case (Cons y ys)
  then obtain i xs where i: "i < length xss" "xss ! i = y # xs"
    and r: "is_interleaving (xss[i := xs]) ys"
    unfolding is_interleaving_Cons by blast
  have "length (concat xss) = Suc (length (concat (xss[i := xs])))"
    using i by (simp add: concat_nth_split [OF i(1)] concat_upd_split [OF i(1)] del: length_concat)
  with Cons.IH [OF r] show ?case by simp
qed

lemma is_interleaving_filter_one:
  "is_interleaving xss ys \<Longrightarrow> i < length xss \<Longrightarrow>
   (\<forall>j<length xss. j \<noteq> i \<longrightarrow> filter P (xss ! j) = []) \<Longrightarrow>
   filter P ys = filter P (xss ! i)"
proof (induction ys arbitrary: xss)
  case Nil
  then have "xss ! i = []" by (simp add: list_all_iff)
  then show ?case by simp
next
  case (Cons y ys)
  from Cons.prems(1) obtain k xs where k: "k < length xss" "xss ! k = y # xs"
    and r: "is_interleaving (xss[k := xs]) ys"
    unfolding is_interleaving_Cons by blast
  have others: "\<forall>j<length (xss[k := xs]). j \<noteq> i \<longrightarrow> filter P ((xss[k := xs]) ! j) = []"
  proof (intro allI impI)
    fix j assume j: "j < length (xss[k := xs])" "j \<noteq> i"
    then have "filter P (xss ! j) = []" using Cons.prems(3) by simp
    then show "filter P ((xss[k := xs]) ! j) = []"
      using k j by (cases "j = k") (auto split: if_splits)
  qed
  have ih: "filter P ys = filter P ((xss[k := xs]) ! i)"
    using Cons.IH [OF r _ others] Cons.prems(2) by simp
  show ?case
  proof (cases "k = i")
    case True
    then show ?thesis using ih k by simp
  next
    case False
    with Cons.prems(3) k have "filter P (y # xs) = []" by metis
    then have "\<not> P y" by (auto split: if_splits)
    then show ?thesis using ih False by simp
  qed
qed

lemma is_trace_Cons:
  "is_trace (ph # phs) tr \<longleftrightarrow>
     (\<exists>ys rest. tr = fst ph @ ys @ rest \<and> is_interleaving (snd ph) ys \<and> is_trace phs rest)"
proof
  assume a: "is_trace (ph # phs) tr"
  let ?n = "length (fst ph)" and ?m = "length (concat (snd ph))"
  have "tr = take ?n tr @ drop ?n tr" by simp
  also have "drop ?n tr = take ?m (drop ?n tr) @ drop ?m (drop ?n tr)"
    by (rule append_take_drop_id [symmetric])
  finally have "tr = take ?n tr @ take ?m (drop ?n tr) @ drop (?n + ?m) tr"
    by (simp add: add.commute)
  moreover from a have "take ?n tr = fst ph" "is_interleaving (snd ph) (take ?m (drop ?n tr))"
    "is_trace phs (drop (?n + ?m) tr)" by (simp_all add: Let_def)
  ultimately show "\<exists>ys rest. tr = fst ph @ ys @ rest \<and> is_interleaving (snd ph) ys \<and> is_trace phs rest"
    by metis
next
  assume "\<exists>ys rest. tr = fst ph @ ys @ rest \<and> is_interleaving (snd ph) ys \<and> is_trace phs rest"
  then obtain ys rest where t: "tr = fst ph @ ys @ rest" and i: "is_interleaving (snd ph) ys"
    and r: "is_trace phs rest" by blast
  from is_interleaving_length [OF i] t i r show "is_trace (ph # phs) tr"
    by (simp add: Let_def del: length_concat)
qed

declare is_trace.simps(2) [simp del]

lemma is_interleaving_skip_empty:
  "is_interleaving xss ys \<Longrightarrow> is_interleaving ([] # xss) ys"
proof (induction ys arbitrary: xss)
  case Nil
  then show ?case by simp
next
  case (Cons y ys)
  then obtain i xs where i: "i < length xss" "xss ! i = y # xs"
    and r: "is_interleaving (xss[i := xs]) ys"
    unfolding is_interleaving_Cons by blast
  from Cons.IH [OF r] have "is_interleaving (([] # xss)[Suc i := xs]) ys" by simp
  moreover have "Suc i < length ([] # xss)" "([] # xss) ! Suc i = y # xs" using i by simp_all
  ultimately show ?case unfolding is_interleaving_Cons by blast
qed

lemma is_interleaving_first:
  "is_interleaving xss ys \<Longrightarrow> is_interleaving (xs # xss) (xs @ ys)"
proof (induction xs)
  case Nil
  then show ?case by (simp add: is_interleaving_skip_empty)
next
  case (Cons x xs)
  then have "is_interleaving (((x # xs) # xss)[0 := xs]) (xs @ ys)" by simp
  moreover have "0 < length ((x # xs) # xss)" "((x # xs) # xss) ! 0 = x # xs" by simp_all
  ultimately have "is_interleaving ((x # xs) # xss) (x # (xs @ ys))"
    unfolding is_interleaving_Cons by blast
  then show ?case by simp
qed

lemma is_interleaving_concat: "is_interleaving xss (concat xss)"
  by (induction xss) (simp_all add: is_interleaving_first)

lemma is_trace_sequential: "is_trace phs (sequential phs)"
proof (induction phs)
  case Nil
  then show ?case by (simp add: sequential_def)
next
  case (Cons ph phs)
  have "sequential (ph # phs) = fst ph @ concat (snd ph) @ sequential phs"
    by (simp add: sequential_def)
  with Cons is_interleaving_concat [of "snd ph"] show ?case
    unfolding is_trace_Cons by blast
qed

lemma is_trace_append:
  "is_trace (phs1 @ phs2) tr \<longleftrightarrow> (\<exists>t1 t2. tr = t1 @ t2 \<and> is_trace phs1 t1 \<and> is_trace phs2 t2)"
proof (induction phs1 arbitrary: tr)
  case Nil
  then show ?case by simp
next
  case (Cons ph phs1)
  show ?case
  proof
    assume "is_trace ((ph # phs1) @ phs2) tr"
    then obtain ys rest where tr: "tr = fst ph @ ys @ rest" and ys: "is_interleaving (snd ph) ys"
      and rest: "is_trace (phs1 @ phs2) rest"
      unfolding append_Cons is_trace_Cons by blast
    from rest obtain t1 t2 where r: "rest = t1 @ t2" "is_trace phs1 t1" "is_trace phs2 t2"
      unfolding Cons.IH by blast
    have "is_trace (ph # phs1) (fst ph @ ys @ t1)"
      unfolding is_trace_Cons using ys r(2) by blast
    moreover have "tr = (fst ph @ ys @ t1) @ t2" using tr r(1) by simp
    ultimately show "\<exists>t1 t2. tr = t1 @ t2 \<and> is_trace (ph # phs1) t1 \<and> is_trace phs2 t2"
      using r(3) by blast
  next
    assume "\<exists>t1 t2. tr = t1 @ t2 \<and> is_trace (ph # phs1) t1 \<and> is_trace phs2 t2"
    then obtain t1 t2 where tr: "tr = t1 @ t2" and t1: "is_trace (ph # phs1) t1"
      and t2: "is_trace phs2 t2" by blast
    from t1 obtain ys rest where s: "t1 = fst ph @ ys @ rest" "is_interleaving (snd ph) ys"
      "is_trace phs1 rest"
      unfolding is_trace_Cons by blast
    have "is_trace (phs1 @ phs2) (rest @ t2)"
      unfolding Cons.IH using s(3) t2 by blast
    moreover have "tr = fst ph @ ys @ (rest @ t2)" using tr s(1) by simp
    ultimately show "is_trace ((ph # phs1) @ phs2) tr"
      unfolding append_Cons is_trace_Cons using s(2) by blast
  qed
qed

lemma is_trace_set: "is_trace phs tr \<Longrightarrow> set tr = set (sequential phs)"
proof (induction phs arbitrary: tr)
  case Nil
  then show ?case by (simp add: sequential_def)
next
  case (Cons ph phs)
  then obtain ys rest where tr: "tr = fst ph @ ys @ rest" and ys: "is_interleaving (snd ph) ys"
    and rest: "is_trace phs rest"
    unfolding is_trace_Cons by blast
  have "sequential (ph # phs) = fst ph @ concat (snd ph) @ sequential phs"
    by (simp add: sequential_def)
  with tr is_interleaving_set [OF ys] Cons.IH [OF rest] show ?case
    by (simp del: set_concat)
qed

lemma is_trace_single_phase_no_later:
  "is_trace [(evs, [])] tr \<longleftrightarrow> tr = evs"
  by (auto simp: is_trace.simps Let_def)


section \<open>The shape of a run of the entry point\<close>

lemma upload_task_events:
  "ev \<in> set (fst (fst (uploadSocialMediaPostFile e u f i p))) \<union>
        set (snd (fst (uploadSocialMediaPostFile e u f i p))) \<Longrightarrow> is_upload_event ev"
  by (auto simp: uploadSocialMediaPostFile_def Let_def
      split: option.splits if_splits storage_response.splits)

lemma instagram_single_workflow_events:
  "ev \<in> set (fst (instagram_single_workflow e c p fp f a)) \<union>
        set (snd (instagram_single_workflow e c p fp f a)) \<Longrightarrow> is_destination_event ev"
  by (auto simp: instagram_single_workflow_def Let_def split: option.splits if_splits)

lemma instagram_carousel_workflow_events:
  "ev \<in> set (fst (instagram_carousel_workflow e c p fps a)) \<union>
        set (snd (instagram_carousel_workflow e c p fps a)) \<Longrightarrow> is_destination_event ev"
  by (auto simp: instagram_carousel_workflow_def Let_def split: option.splits if_splits)

lemma youtube_workflow_events:
  "ev \<in> set (fst (youtube_workflow e c p f ch)) \<union>
        set (snd (youtube_workflow e c p f ch)) \<Longrightarrow> is_destination_event ev"
  by (auto simp: youtube_workflow_def Let_def split: fetch_result.splits if_splits)

lemma set_sequential_start_all:
  "set (sequential [start_all ts]) = (\<Union>t\<in>set ts. set (fst t) \<union> set (snd t))"
  by (auto simp: sequential_def start_all_def)

lemma promise_all_Inr: "promise_all rs = Inr vs \<Longrightarrow> \<forall>r\<in>set rs. \<not> isl r"
  by (induction rs arbitrary: vs rule: promise_all.induct) (auto split: sum.splits)

lemma promise_all_length: "promise_all rs = Inr vs \<Longrightarrow> length vs = length rs"
  by (induction rs arbitrary: vs rule: promise_all.induct) (auto split: sum.splits)

lemma upload_all_nth:
  "i < length (files c) \<Longrightarrow>
   fst (upload_all e c p ! i) = fst (uploadSocialMediaPostFile e (userId c) (entry_file (files c ! i)) i p) \<and>
   isl (snd (upload_all e c p ! i)) = upload_fails e c p i"
  by (simp add: upload_all_def upload_fails_def nth_enumerate_eq Let_def split: sum.splits)

lemma length_upload_all: "length (upload_all e c p) = length (files c)"
  by (simp add: upload_all_def)

lemma upload_all_events:
  assumes "t \<in> set (upload_all e c p)" "ev \<in> set (fst (fst t)) \<union> set (snd (fst t))"
  shows "is_upload_event ev"
proof -
  from assms(1) obtain i where i: "i < length (files c)" "t = upload_all e c p ! i"
    by (metis in_set_conv_nth length_upload_all)
  with assms(2) upload_all_nth [OF i(1), of e p] show ?thesis
    using upload_task_events by metis
qed

lemma single_shape:
  assumes "length (files c) = 1" and "is_trace (processSingleSocialMediaPost e c p) t"
  shows "\<exists>ups dst. t = ups @ dst \<and> (\<forall>ev\<in>set ups. is_upload_event ev) \<and>
           (\<forall>ev\<in>set dst. is_destination_event ev) \<and>
           (dst \<noteq> [] \<longrightarrow> (\<forall>i<length (files c). \<not> upload_fails e c p i))"
proof -
  from assms(1) obtain entry where fs: "files c = [entry]"
    by (cases "files c") auto
  let ?up = "uploadSocialMediaPostFile e (userId c) (entry_file entry) 0 p"
  show ?thesis
  proof (cases "snd ?up")
    case (Inl err)
    then have ph: "processSingleSocialMediaPost e c p = [start_all [fst ?up]]"
      by (simp add: processSingleSocialMediaPost_def fs Let_def)
    from assms(2) have "is_trace [start_all [fst ?up]] t" unfolding ph .
    then have "set t = set (fst (fst ?up)) \<union> set (snd (fst ?up))"
      by (simp add: is_trace_set set_sequential_start_all)
    then have "\<forall>ev\<in>set t. is_upload_event ev"
      using upload_task_events by blast
    then have "t = t @ [] \<and> (\<forall>ev\<in>set t. is_upload_event ev) \<and>
        (\<forall>ev\<in>set []. is_destination_event ev) \<and>
        (([]::event list) \<noteq> [] \<longrightarrow> (\<forall>i<length (files c). \<not> upload_fails e c p i))" by simp
    then show ?thesis by blast
  next
    case (Inr filePath)
    let ?ws = "map (instagram_single_workflow e c p filePath (entry_file entry))
                 (selectedInstagramAccounts c) @
               map (youtube_workflow e c p (entry_file entry)) (selectedYoutubeChannels c)"
    from Inr have ph: "processSingleSocialMediaPost e c p = [start_all [fst ?up]] @ [start_all ?ws]"
      by (simp add: processSingleSocialMediaPost_def fs Let_def)
    from assms(2) obtain t1 t2 where t: "t = t1 @ t2" and t1: "is_trace [start_all [fst ?up]] t1"
      and t2: "is_trace [start_all ?ws] t2"
      unfolding ph is_trace_append by blast
    from t1 have "set t1 = set (fst (fst ?up)) \<union> set (snd (fst ?up))"
      by (simp add: is_trace_set set_sequential_start_all)
    then have u: "\<forall>ev\<in>set t1. is_upload_event ev"
      using upload_task_events by blast
    from t2 have "set t2 = (\<Union>w\<in>set ?ws. set (fst w) \<union> set (snd w))"
      by (simp only: is_trace_set set_sequential_start_all)
    then have d: "\<forall>ev\<in>set t2. is_destination_event ev"
      by (auto intro: instagram_single_workflow_events youtube_workflow_events)
    have "\<forall>i<length (files c). \<not> upload_fails e c p i"
      using Inr by (simp add: fs upload_fails_def)
    with t u d show ?thesis by blast
  qed
qed

lemma carousel_shape:
  assumes "is_trace (processCarouselSocialMediaPost e c p) t"
  shows "\<exists>ups dst. t = ups @ dst \<and> (\<forall>ev\<in>set ups. is_upload_event ev) \<and>
           (\<forall>ev\<in>set dst. is_destination_event ev) \<and>
           (dst \<noteq> [] \<longrightarrow> (\<forall>i<length (files c). \<not> upload_fails e c p i))"
proof -
  let ?ups = "upload_all e c p"
  have up_events: "\<And>t1. is_trace [start_all (map fst ?ups)] t1 \<Longrightarrow> \<forall>ev\<in>set t1. is_upload_event ev"
  proof -
    fix t1 assume "is_trace [start_all (map fst ?ups)] t1"
    then have "set t1 = (\<Union>w\<in>set (map fst ?ups). set (fst w) \<union> set (snd w))"
      by (simp only: is_trace_set set_sequential_start_all)
    then show "\<forall>ev\<in>set t1. is_upload_event ev"
      using upload_all_events [of _ e c p] by auto
  qed
  show ?thesis
  proof (cases "promise_all (map snd ?ups)")
    case (Inl err)
    then have ph: "processCarouselSocialMediaPost e c p = [start_all (map fst ?ups)]"
      by (simp add: processCarouselSocialMediaPost_def Let_def)
    from assms have "is_trace [start_all (map fst ?ups)] t" unfolding ph .
    from up_events [OF this]
    have "t = t @ [] \<and> (\<forall>ev\<in>set t. is_upload_event ev) \<and>
        (\<forall>ev\<in>set []. is_destination_event ev) \<and>
        (([]::event list) \<noteq> [] \<longrightarrow> (\<forall>i<length (files c). \<not> upload_fails e c p i))" by simp
    then show ?thesis by blast
  next
    case (Inr filePaths)
    let ?ws = "map (instagram_carousel_workflow e c p filePaths) (selectedInstagramAccounts c)"
    from Inr have ph: "processCarouselSocialMediaPost e c p =
        [start_all (map fst ?ups)] @ [start_all ?ws]"
      by (simp add: processCarouselSocialMediaPost_def Let_def)
    from assms obtain t1 t2 where t: "t = t1 @ t2"
      and t1: "is_trace [start_all (map fst ?ups)] t1"
      and t2: "is_trace [start_all ?ws] t2"
      unfolding ph is_trace_append by blast
    from t2 have "set t2 = (\<Union>w\<in>set ?ws. set (fst w) \<union> set (snd w))"
      by (simp only: is_trace_set set_sequential_start_all)
    then have d: "\<forall>ev\<in>set t2. is_destination_event ev"
      by (auto intro: instagram_carousel_workflow_events)
    have "\<forall>i<length (files c). \<not> upload_fails e c p i"
    proof (intro allI impI)
      fix i assume i: "i < length (files c)"
      then have "snd (?ups ! i) \<in> set (map snd ?ups)"
        by (simp add: length_upload_all)
      with promise_all_Inr [OF Inr] have "\<not> isl (snd (?ups ! i))" by blast
      with upload_all_nth [OF i] show "\<not> upload_fails e c p i" by simp
    qed
    with t up_events [OF t1] d show ?thesis by blast
  qed
qed

lemma entry_shape:
  assumes "createSocialMediaPost e (userId c) = Some p"
    and "is_trace (processSocialMediaPost e c) tr"
  shows "\<exists>ups dst. tr = CreateSocialMediaPost (userId c) # ups @ dst \<and>
           (\<forall>ev\<in>set ups. is_upload_event ev) \<and>
           (\<forall>ev\<in>set dst. is_destination_event ev) \<and>
           (dst \<noteq> [] \<longrightarrow> (\<forall>i<length (files c). \<not> upload_fails e c p i))"
proof -
  let ?rest = "case branch_of c of
                 SinglePost \<Rightarrow> processSingleSocialMediaPost e c p
               | CarouselPost \<Rightarrow> processCarouselSocialMediaPost e c p
               | NoPost \<Rightarrow> []"
  have ph: "processSocialMediaPost e c = [([CreateSocialMediaPost (userId c)], [])] @ ?rest"
    by (simp add: processSocialMediaPost_def assms(1))
  from assms(2) obtain t where tr: "tr = CreateSocialMediaPost (userId c) # t"
    and t: "is_trace ?rest t"
    unfolding ph is_trace_append is_trace_single_phase_no_later by auto
  have "\<exists>ups dst. t = ups @ dst \<and> (\<forall>ev\<in>set ups. is_upload_event ev) \<and>
           (\<forall>ev\<in>set dst. is_destination_event ev) \<and>
           (dst \<noteq> [] \<longrightarrow> (\<forall>i<length (files c). \<not> upload_fails e c p i))"
  proof (cases "branch_of c")
    case SinglePost
    then have len: "length (files c) = 1" by (simp add: branch_of_def split: if_splits)
    from t SinglePost have "is_trace (processSingleSocialMediaPost e c p) t" by simp
    from single_shape [OF len this] show ?thesis .
  next
    case CarouselPost
    with t have "is_trace (processCarouselSocialMediaPost e c p) t" by simp
    from carousel_shape [OF this] show ?thesis .
  next
    case NoPost
    with t have "t = []" by simp
    then show ?thesis by simp
  qed
  with tr show ?thesis by auto
qed

lemma storage_or_insert_fails_throws:
  "storage_or_insert_fails e c p i \<Longrightarrow> upload_fails e c p i"
  by (auto simp: storage_or_insert_fails_def upload_fails_def uploadSocialMediaPostFile_def Let_def
      split: option.splits storage_response.splits)

lemma nth_append_right_mem:
  "\<not> j < length xs \<Longrightarrow> j < length (xs @ ys) \<Longrightarrow> (xs @ ys) ! j \<in> set ys"
  by (simp add: nth_append)

lemma nth_append_left_mem:
  "j < length xs \<Longrightarrow> (xs @ ys) ! j \<in> set xs"
  by (simp add: nth_append)

lemma upload_not_destination: "is_upload_event ev \<Longrightarrow> \<not> is_destination_event ev"
  by (cases ev) simp_all

lemma filter_empty_set: "(\<forall>x\<in>set xs. \<not> P x) \<Longrightarrow> filter P xs = []"
  by (induction xs) auto

lemma instagram_single_workflow_requests:
  "filter is_container_request (fst (instagram_single_workflow e c p fp f account)) =
     [CreateInstagramContainer (instagram_business_account_id account) fp (Some (caption c))
        (userId c) (post_type (file_type f)) False] \<and>
   filter is_container_request (snd (instagram_single_workflow e c p fp f account)) = []"
  by (simp add: instagram_single_workflow_def Let_def split: option.splits)

lemma youtube_workflow_requests:
  "filter is_container_request (fst (youtube_workflow e c p f ch)) = [] \<and>
   filter is_container_request (snd (youtube_workflow e c p f ch)) = []"
  by (simp add: youtube_workflow_def Let_def split: fetch_result.splits)

lemma filter_concat_map: "filter P (concat (map f xs)) = concat (map (\<lambda>x. filter P (f x)) xs)"
  by (induction xs) simp_all

lemma concat_map_singleton: "concat (map (\<lambda>x. [f x]) xs) = map f xs"
  by (induction xs) simp_all

lemma concat_map_empty: "concat (map (\<lambda>x. []) xs) = []"
  by (induction xs) simp_all

lemma single_phase_requests:
  assumes "is_trace [start_all
      (map (instagram_single_workflow e c p fp f) accounts @
       map (youtube_workflow e c p f) channels)] t"
  shows "filter is_container_request t =
     map (\<lambda>account. CreateInstagramContainer (instagram_business_account_id account) fp
            (Some (caption c)) (userId c) (post_type (file_type f)) False) accounts"
proof -
  let ?ws = "map (instagram_single_workflow e c p fp f) accounts @
       map (youtube_workflow e c p f) channels"
  from assms obtain ys where t: "t = fst (start_all ?ws) @ ys"
    and ys: "is_interleaving (snd (start_all ?ws)) ys"
    unfolding is_trace_Cons is_trace.simps(1) by auto
  have "set ys = set (concat (snd (start_all ?ws)))"
    using ys by (rule is_interleaving_set)
  then have "\<forall>ev\<in>set ys. \<not> is_container_request ev"
    using instagram_single_workflow_requests [of e c p fp f]
      youtube_workflow_requests [of e c p f]
    by (auto simp: start_all_def filter_empty_conv)
  then have l: "filter is_container_request ys = []" by (rule filter_empty_set)
  have "filter is_container_request (fst (start_all ?ws)) =
     map (\<lambda>account. CreateInstagramContainer (instagram_business_account_id account) fp
            (Some (caption c)) (userId c) (post_type (file_type f)) False) accounts"
    by (simp add: start_all_def filter_concat_map o_def instagram_single_workflow_requests
        youtube_workflow_requests concat_map_singleton concat_map_empty)
  with t l show ?thesis by simp
qed

lemma upload_not_request: "is_upload_event ev \<Longrightarrow> \<not> is_container_request ev"
  by (cases ev) simp_all

lemma upload_single_item_event: "is_upload_event ev \<Longrightarrow> single_item_event capt ev"
  by (cases ev) simp_all

lemma instagram_single_workflow_flags:
  "ev \<in> set (fst (instagram_single_workflow e c p fp f account)) \<union>
         set (snd (instagram_single_workflow e c p fp f account)) \<Longrightarrow>
   single_item_event (caption c) ev"
  by (auto simp: instagram_single_workflow_def Let_def split: option.splits if_splits)

lemma youtube_workflow_flags:
  "ev \<in> set (fst (youtube_workflow e c p f ch)) \<union> set (snd (youtube_workflow e c p f ch)) \<Longrightarrow>
   single_item_event capt ev"
  by (auto simp: youtube_workflow_def Let_def split: fetch_result.splits if_splits)

lemma single_trace_events:
  assumes fs: "files c = [entry]" and t: "is_trace (processSingleSocialMediaPost e c p) t"
  shows "(\<forall>ev\<in>set t. single_item_event (caption c) ev) \<and>
         (\<forall>fp. snd (uploadSocialMediaPostFile e (userId c) (entry_file entry) 0 p) = Inr fp \<longrightarrow>
            filter is_container_request t =
              map (\<lambda>account. CreateInstagramContainer (instagram_business_account_id account) fp
                     (Some (caption c)) (userId c) (post_type (file_type (entry_file entry))) False)
                (selectedInstagramAccounts c))"
proof -
  let ?up = "uploadSocialMediaPostFile e (userId c) (entry_file entry) 0 p"
  have up_ok: "\<And>t1. is_trace [start_all [fst ?up]] t1 \<Longrightarrow> \<forall>ev\<in>set t1. is_upload_event ev"
  proof -
    fix t1 assume "is_trace [start_all [fst ?up]] t1"
    then have "set t1 = set (fst (fst ?up)) \<union> set (snd (fst ?up))"
      by (simp add: is_trace_set set_sequential_start_all)
    then show "\<forall>ev\<in>set t1. is_upload_event ev"
      using upload_task_events by blast
  qed
  show ?thesis
  proof (cases "snd ?up")
    case (Inl err)
    then have ph: "processSingleSocialMediaPost e c p = [start_all [fst ?up]]"
      by (simp add: processSingleSocialMediaPost_def fs Let_def)
    from t have "is_trace [start_all [fst ?up]] t" unfolding ph .
    from up_ok [OF this] have "\<forall>ev\<in>set t. single_item_event (caption c) ev"
      using upload_single_item_event by blast
    with Inl show ?thesis by simp
  next
    case (Inr filePath)
    let ?ws = "map (instagram_single_workflow e c p filePath (entry_file entry))
                 (selectedInstagramAccounts c) @
               map (youtube_workflow e c p (entry_file entry)) (selectedYoutubeChannels c)"
    from Inr have ph: "processSingleSocialMediaPost e c p = [start_all [fst ?up]] @ [start_all ?ws]"
      by (simp add: processSingleSocialMediaPost_def fs Let_def)
    from t obtain t1 t2 where tt: "t = t1 @ t2" and t1: "is_trace [start_all [fst ?up]] t1"
      and t2: "is_trace [start_all ?ws] t2"
      unfolding ph is_trace_append by blast
    have u: "\<forall>ev\<in>set t1. is_upload_event ev" using up_ok [OF t1] .
    then have u1: "\<forall>ev\<in>set t1. single_item_event (caption c) ev"
      using upload_single_item_event by blast
    from u have "\<forall>ev\<in>set t1. \<not> is_container_request ev"
      using upload_not_request by blast
    then have f1: "filter is_container_request t1 = []" by (rule filter_empty_set)
    from t2 have s2: "set t2 = (\<Union>w\<in>set ?ws. set (fst w) \<union> set (snd w))"
      by (simp only: is_trace_set set_sequential_start_all)
    have u2: "\<forall>ev\<in>set t2. single_item_event (caption c) ev"
    proof
      fix ev assume "ev \<in> set t2"
      with s2 obtain w where w: "w \<in> set ?ws" and ev: "ev \<in> set (fst w) \<union> set (snd w)"
        by blast
      from w consider
        (ig) account where "w = instagram_single_workflow e c p filePath (entry_file entry) account"
        | (yt) ch where "w = youtube_workflow e c p (entry_file entry) ch"
        by auto
      then show "single_item_event (caption c) ev"
      proof cases
        case ig
        with ev show ?thesis using instagram_single_workflow_flags by blast
      next
        case yt
        with ev show ?thesis using youtube_workflow_flags by blast
      qed
    qed
    have a: "\<forall>ev\<in>set t. single_item_event (caption c) ev"
      unfolding tt using u1 u2 by auto
    have b: "filter is_container_request t =
              map (\<lambda>account. CreateInstagramContainer (instagram_business_account_id account)
                     filePath (Some (caption c)) (userId c)
                     (post_type (file_type (entry_file entry))) False)
                (selectedInstagramAccounts c)"
      unfolding tt using f1 single_phase_requests [OF t2] by simp
    from a b Inr show ?thesis by simp
  qed
qed

lemma subseq_concat_nth: "i < length xss \<Longrightarrow> subseq (xss ! i) (concat xss)"
proof -
  assume i: "i < length xss"
  have "subseq (xss ! i) (xss ! i @ concat (drop (Suc i) xss))"
    by (rule subseq_rev_drop_many) simp
  then have "subseq (xss ! i) (concat (take i xss) @ xss ! i @ concat (drop (Suc i) xss))"
    by (rule subseq_drop_many)
  then show ?thesis by (simp only: concat_nth_split [OF i, symmetric])
qed

lemma is_interleaving_subseq:
  "is_interleaving xss ys \<Longrightarrow> i < length xss \<Longrightarrow> subseq (xss ! i) ys"
proof (induction ys arbitrary: xss)
  case Nil
  then have "xss ! i = []" by (simp add: list_all_iff)
  then show ?case by simp
next
  case (Cons y ys)
  from Cons.prems(1) obtain k xs where k: "k < length xss" "xss ! k = y # xs"
    and r: "is_interleaving (xss[k := xs]) ys"
    unfolding is_interleaving_Cons by blast
  from Cons.IH [OF r] Cons.prems(2) have ih: "subseq ((xss[k := xs]) ! i) ys" by simp
  show ?case
  proof (cases "k = i")
    case True
    with ih k show ?thesis by simp
  next
    case False
    with ih have "subseq (xss ! i) ys" by simp
    then show ?thesis by (rule list_emb_Cons)
  qed
qed

lemma those_length: "those xs = Some ys \<Longrightarrow> length ys = length xs"
  by (induction xs arbitrary: ys) (auto split: option.splits)

lemma start_all_subseq:
  assumes "is_trace [start_all ws] t" and "w \<in> set ws"
  shows "subseq (fst w @ snd w) t"
proof -
  from assms(1) obtain ys where t: "t = fst (start_all ws) @ ys"
    and ys: "is_interleaving (snd (start_all ws)) ys"
    unfolding is_trace_Cons is_trace.simps(1) by auto
  from assms(2) obtain i where i: "i < length ws" "ws ! i = w"
    by (auto simp: in_set_conv_nth)
  have "subseq (map fst ws ! i) (concat (map fst ws))"
    using i by (intro subseq_concat_nth) simp
  then have a: "subseq (fst w) (fst (start_all ws))"
    using i by (simp add: start_all_def)
  have "subseq (snd (start_all ws) ! i) ys"
    using ys i by (intro is_interleaving_subseq) (simp_all add: start_all_def)
  then have b: "subseq (snd w) ys"
    using i by (simp add: start_all_def)
  from a b show ?thesis unfolding t by (rule list_emb_append_mono)
qed

section \<open>Failing steps of an Instagram workflow\<close>

lemma after_Cons: "after ev (x # xs) = (if x = ev then xs else after ev xs)"
  by (simp add: after_def)

lemma after_Nil: "after ev [] = []"
  by (simp add: after_def)

lemma after_skip: "ev \<notin> set xs \<Longrightarrow> after ev (xs @ ys) = after ev ys"
  by (induction xs) (auto simp: after_Cons)

lemma after_in_prefix: "ev \<in> set xs \<Longrightarrow> after ev (xs @ ys) = after ev xs @ ys"
  by (induction xs) (auto simp: after_Cons)

lemma set_after: "set (after ev xs) \<subseteq> set xs"
  by (induction xs) (auto simp: after_Cons after_Nil)

lemma those_map_Some: "those (map f xs) = Some ys \<Longrightarrow> \<forall>x\<in>set xs. f x \<noteq> None"
  by (induction xs arbitrary: ys) (auto split: option.splits)

lemma instagram_single_workflow_failure:
  assumes "ev \<in> set (fst (instagram_single_workflow e c p fp f account) @
                      snd (instagram_single_workflow e c p fp f account))"
    and "step_failed e ev" and "\<not> is_persist ev" and "\<not> is_publish ev"
  shows "filter (\<lambda>x. \<not> is_container_request x)
           (after ev (fst (instagram_single_workflow e c p fp f account) @
                      snd (instagram_single_workflow e c p fp f account))) =
           [SetInstagramAccountIdToProcessingState
              [(instagram_business_account_id account, Error)]] \<and>
         SetInstagramAccountIdToProcessingState
           [(instagram_business_account_id account, Posted)]
           \<notin> set (fst (instagram_single_workflow e c p fp f account) @
                    snd (instagram_single_workflow e c p fp f account))"
  using assms
  by (auto simp: instagram_single_workflow_def Let_def after_Cons after_Nil
      split: option.splits if_splits)

lemma instagram_single_workflow_persist:
  assumes "ev \<in> set (fst (instagram_single_workflow e c p fp f account) @
                      snd (instagram_single_workflow e c p fp f account))"
    and "is_persist ev"
  shows "after ev (fst (instagram_single_workflow e c p fp f account) @
                   snd (instagram_single_workflow e c p fp f account)) =
           [SetInstagramAccountIdToProcessingState
              [(instagram_business_account_id account, Posted)]]"
  using assms
  by (auto simp: instagram_single_workflow_def Let_def after_Cons after_Nil
      split: option.splits if_splits)

lemma carousel_later_failure:
  assumes "ev \<in> set (snd (instagram_carousel_workflow e c p fps account))"
    and "step_failed e ev" and "\<not> is_persist ev"
  shows "filter (\<lambda>x. \<not> is_container_request x)
           (after ev (snd (instagram_carousel_workflow e c p fps account))) =
           [SetInstagramAccountIdToProcessingState
              [(instagram_business_account_id account, Error)]] \<and>
         SetInstagramAccountIdToProcessingState
           [(instagram_business_account_id account, Posted)]
           \<notin> set (snd (instagram_carousel_workflow e c p fps account))"
proof -
  let ?a = "instagram_business_account_id account"
  let ?u = "userId c"
  let ?err = "SetInstagramAccountIdToProcessingState [(?a, Error)]"
  let ?later = "snd (instagram_carousel_workflow e c p fps account)"
  show ?thesis
  proof (cases "those (map (\<lambda>(filePath, postType).
        createInstagramContainer e ?a filePath None ?u (post_type postType) True) fps)")
    case None
    then have "?later = [?err]" by (simp add: instagram_carousel_workflow_def Let_def)
    with assms show ?thesis by auto
  next
    case (Some ids)
    note ids = this
    show ?thesis
    proof (cases "checkInstagramContainerStatus e ids ?a ?u")
      case False
      with ids have "?later = [CheckInstagramContainerStatus ids ?a ?u, ?err]"
        by (simp add: instagram_carousel_workflow_def Let_def)
      with assms show ?thesis by (auto simp: after_Cons after_Nil)
    next
      case True
      note ready = this
      show ?thesis
      proof (cases "createInstagramCarouselContainer e ids ?a ?u (caption c)")
        case None
        with ids ready have "?later = [CheckInstagramContainerStatus ids ?a ?u,
            CreateInstagramCarouselContainer ids ?a ?u (caption c), ?err]"
          by (simp add: instagram_carousel_workflow_def Let_def)
        with assms ready show ?thesis by (auto simp: after_Cons after_Nil)
      next
        case (Some agg)
        note agg = this
        show ?thesis
        proof (cases "checkInstagramContainerStatus e [agg] ?a ?u")
          case False
          with ids ready agg have "?later = [CheckInstagramContainerStatus ids ?a ?u,
              CreateInstagramCarouselContainer ids ?a ?u (caption c),
              CheckInstagramContainerStatus [agg] ?a ?u, ?err]"
            by (simp add: instagram_carousel_workflow_def Let_def)
          with assms ready agg show ?thesis by (auto simp: after_Cons after_Nil)
        next
          case True
          note ready2 = this
          show ?thesis
          proof (cases "publishInstagramMediaContainer e agg ?a ?u")
            case None
            with ids ready agg ready2 have "?later = [CheckInstagramContainerStatus ids ?a ?u,
                CreateInstagramCarouselContainer ids ?a ?u (caption c),
                CheckInstagramContainerStatus [agg] ?a ?u,
                PublishInstagramMediaContainer agg ?a ?u, ?err]"
              by (simp add: instagram_carousel_workflow_def Let_def)
            with assms ready agg ready2 show ?thesis by (auto simp: after_Cons after_Nil)
          next
            case (Some mediaId)
            with ids ready agg ready2 have "?later = [CheckInstagramContainerStatus ids ?a ?u,
                CreateInstagramCarouselContainer ids ?a ?u (caption c),
                CheckInstagramContainerStatus [agg] ?a ?u,
                PublishInstagramMediaContainer agg ?a ?u,
                SaveInstagramId mediaId p (caption c) ?u,
                SetInstagramAccountIdToProcessingState [(?a, Posted)]]"
              by (simp add: instagram_carousel_workflow_def Let_def)
            with assms ready agg ready2 Some show ?thesis by (auto simp: after_Cons after_Nil)
          qed
        qed
      qed
    qed
  qed
qed

lemma carousel_later_persist:
  assumes "ev \<in> set (snd (instagram_carousel_workflow e c p fps account))"
    and "is_persist ev"
  shows "after ev (snd (instagram_carousel_workflow e c p fps account)) =
           [SetInstagramAccountIdToProcessingState
              [(instagram_business_account_id account, Posted)]]"
proof -
  let ?a = "instagram_business_account_id account"
  let ?u = "userId c"
  let ?err = "SetInstagramAccountIdToProcessingState [(?a, Error)]"
  let ?later = "snd (instagram_carousel_workflow e c p fps account)"
  show ?thesis
  proof (cases "those (map (\<lambda>(filePath, postType).
        createInstagramContainer e ?a filePath None ?u (post_type postType) True) fps)")
    case None
    then have "?later = [?err]" by (simp add: instagram_carousel_workflow_def Let_def)
    with assms show ?thesis by auto
  next
    case (Some ids)
    note ids = this
    show ?thesis
    proof (cases "checkInstagramContainerStatus e ids ?a ?u")
      case False
      with ids have "?later = [CheckInstagramContainerStatus ids ?a ?u, ?err]"
        by (simp add: instagram_carousel_workflow_def Let_def)
      with assms show ?thesis by auto
    next
      case True
      note ready = this
      show ?thesis
      proof (cases "createInstagramCarouselContainer e ids ?a ?u (caption c)")
        case None
        with ids ready have "?later = [CheckInstagramContainerStatus ids ?a ?u,
            CreateInstagramCarouselContainer ids ?a ?u (caption c), ?err]"
          by (simp add: instagram_carousel_workflow_def Let_def)
        with assms show ?thesis by auto
      next
        case (Some agg)
        note agg = this
        show ?thesis
        proof (cases "checkInstagramContainerStatus e [agg] ?a ?u")
          case False
          with ids ready agg have "?later = [CheckInstagramContainerStatus ids ?a ?u,
              CreateInstagramCarouselContainer ids ?a ?u (caption c),
              CheckInstagramContainerStatus [agg] ?a ?u, ?err]"
            by (simp add: instagram_carousel_workflow_def Let_def)
          with assms show ?thesis by auto
        next
          case True
          note ready2 = this
          show ?thesis
          proof (cases "publishInstagramMediaContainer e agg ?a ?u")
            case None
            with ids ready agg ready2 have "?later = [CheckInstagramContainerStatus ids ?a ?u,
                CreateInstagramCarouselContainer ids ?a ?u (caption c),
                CheckInstagramContainerStatus [agg] ?a ?u,
                PublishInstagramMediaContainer agg ?a ?u, ?err]"
              by (simp add: instagram_carousel_workflow_def Let_def)
            with assms show ?thesis by auto
          next
            case (Some mediaId)
            with ids ready agg ready2 have "?later = [CheckInstagramContainerStatus ids ?a ?u,
                CreateInstagramCarouselContainer ids ?a ?u (caption c),
                CheckInstagramContainerStatus [agg] ?a ?u,
                PublishInstagramMediaContainer agg ?a ?u,
                SaveInstagramId mediaId p (caption c) ?u,
                SetInstagramAccountIdToProcessingState [(?a, Posted)]]"
              by (simp add: instagram_carousel_workflow_def Let_def)
            with assms show ?thesis by (auto simp: after_Cons after_Nil)
          qed
        qed
      qed
    qed
  qed
qed

lemma carousel_requests:
  "\<forall>x\<in>set (map (\<lambda>(filePath, postType).
         CreateInstagramContainer a filePath None u (post_type postType) True) fps).
     is_container_request x"
  by auto

lemma after_requests:
  assumes "\<forall>x\<in>set xs. is_container_request x" and "ev \<in> set xs"
    and "\<not> is_container_request z" and "\<not> is_container_request y"
  shows "filter (\<lambda>x. \<not> is_container_request x) (after ev (z # xs @ [y])) = [y]"
proof -
  from assms(1,3) have "z \<noteq> ev" using assms(2) by blast
  then have "after ev (z # xs @ [y]) = after ev (xs @ [y])" by (simp add: after_Cons)
  also have "\<dots> = after ev xs @ [y]" using assms(2) by (rule after_in_prefix)
  finally have "filter (\<lambda>x. \<not> is_container_request x) (after ev (z # xs @ [y])) =
      filter (\<lambda>x. \<not> is_container_request x) (after ev xs) @ [y]"
    using assms(4) by simp
  moreover have "\<forall>x\<in>set (after ev xs). \<not> \<not> is_container_request x"
    using assms(1) set_after [of ev xs] by blast
  then have "filter (\<lambda>x. \<not> is_container_request x) (after ev xs) = []"
    by (rule filter_empty_set)
  ultimately show ?thesis by simp
qed

lemma after_not_requests:
  assumes "\<forall>x\<in>set xs. is_container_request x" and "\<not> is_container_request ev"
    and "z \<noteq> ev"
  shows "after ev (z # xs @ ys) = after ev ys"
proof -
  from assms(1,2) have "ev \<notin> set xs" by blast
  then have "after ev (xs @ ys) = after ev ys" by (rule after_skip)
  with assms(3) show ?thesis by (simp add: after_Cons)
qed

lemma failed_not_request_in_later:
  "ev \<in> set (snd (instagram_carousel_workflow e c p fps account)) \<Longrightarrow>
   \<not> is_container_request ev"
  by (auto simp: instagram_carousel_workflow_def Let_def split: option.splits if_splits)

lemma instagram_carousel_workflow_failure:
  assumes ev: "ev \<in> set (fst (instagram_carousel_workflow e c p fps account) @
                      snd (instagram_carousel_workflow e c p fps account))"
    and failed: "step_failed e ev" and np: "\<not> is_persist ev"
  shows "filter (\<lambda>x. \<not> is_container_request x)
           (after ev (fst (instagram_carousel_workflow e c p fps account) @
                      snd (instagram_carousel_workflow e c p fps account))) =
           [SetInstagramAccountIdToProcessingState
              [(instagram_business_account_id account, Error)]] \<and>
         SetInstagramAccountIdToProcessingState
           [(instagram_business_account_id account, Posted)]
           \<notin> set (fst (instagram_carousel_workflow e c p fps account) @
                    snd (instagram_carousel_workflow e c p fps account))"
proof -
  let ?a = "instagram_business_account_id account"
  let ?u = "userId c"
  let ?f = "\<lambda>(filePath, postType).
         createInstagramContainer e ?a filePath None ?u (post_type postType) True"
  let ?creates = "map (\<lambda>(filePath, postType).
         CreateInstagramContainer ?a filePath None ?u (post_type postType) True) fps"
  let ?later = "snd (instagram_carousel_workflow e c p fps account)"
  let ?first = "SetInstagramAccountIdToProcessingState [(?a, Processing)]"
  let ?err = "SetInstagramAccountIdToProcessingState [(?a, Error)]"
  let ?posted = "SetInstagramAccountIdToProcessingState [(?a, Posted)]"
  have evs: "fst (instagram_carousel_workflow e c p fps account) = ?first # ?creates"
    by (simp add: instagram_carousel_workflow_def Let_def)
  have req: "\<forall>x\<in>set ?creates. is_container_request x" by (rule carousel_requests)
  have first: "?first \<noteq> ev" using failed by auto
  have np1: "?posted \<notin> set (?first # ?creates)"
  proof
    assume "?posted \<in> set (?first # ?creates)"
    then have "?posted \<in> set ?creates" by simp
    with req have "is_container_request ?posted" by blast
    then show False by simp
  qed
  show ?thesis
  proof (cases "ev \<in> set ?creates")
    case True
    then obtain x where x: "x \<in> set fps"
      and evx: "ev = (\<lambda>(filePath, postType).
         CreateInstagramContainer ?a filePath None ?u (post_type postType) True) x"
      by auto
    from evx failed have "?f x = None" by (cases x) simp
    with x have "\<not> (\<forall>x\<in>set fps. ?f x \<noteq> None)" by blast
    then have "those (map ?f fps) = None"
      using those_map_Some [of ?f fps] by (cases "those (map ?f fps)") auto
    then have later: "?later = [?err]"
      by (simp add: instagram_carousel_workflow_def Let_def)
    have "filter (\<lambda>x. \<not> is_container_request x) (after ev (?first # ?creates @ [?err]))
        = [?err]"
      using req True by (rule after_requests) simp_all
    moreover have "?posted \<notin> set ((?first # ?creates) @ [?err])"
      using np1 by simp
    ultimately show ?thesis unfolding evs later by simp
  next
    case False
    with ev first have in_later: "ev \<in> set ?later" unfolding evs by auto
    then have "\<not> is_container_request ev" by (rule failed_not_request_in_later)
    with req have aft: "after ev (?first # ?creates @ ?later) = after ev ?later"
      using first by (rule after_not_requests)
    have l: "filter (\<lambda>x. \<not> is_container_request x) (after ev ?later) = [?err] \<and>
          ?posted \<notin> set ?later"
      using in_later failed np by (rule carousel_later_failure)
    have "?posted \<notin> set ((?first # ?creates) @ ?later)"
      using np1 l by simp
    with l aft show ?thesis unfolding evs by simp
  qed
qed

lemma instagram_carousel_workflow_persist:
  assumes ev: "ev \<in> set (fst (instagram_carousel_workflow e c p fps account) @
                      snd (instagram_carousel_workflow e c p fps account))"
    and pe: "is_persist ev"
  shows "after ev (fst (instagram_carousel_workflow e c p fps account) @
                   snd (instagram_carousel_workflow e c p fps account)) =
           [SetInstagramAccountIdToProcessingState
              [(instagram_business_account_id account, Posted)]]"
proof -
  let ?a = "instagram_business_account_id account"
  let ?u = "userId c"
  let ?creates = "map (\<lambda>(filePath, postType).
         CreateInstagramContainer ?a filePath None ?u (post_type postType) True) fps"
  let ?later = "snd (instagram_carousel_workflow e c p fps account)"
  have evs: "fst (instagram_carousel_workflow e c p fps account) =
      SetInstagramAccountIdToProcessingState [(?a, Processing)] # ?creates"
    by (simp add: instagram_carousel_workflow_def Let_def)
  have out: "ev \<notin> set (SetInstagramAccountIdToProcessingState [(?a, Processing)] # ?creates)"
    using pe by auto
  with ev have in_later: "ev \<in> set ?later" unfolding evs by simp
  have "after ev ?later = [SetInstagramAccountIdToProcessingState [(?a, Posted)]]"
    using in_later pe by (rule carousel_later_persist)
  then show ?thesis unfolding evs after_skip [OF out] .
qed


lemma single_not_carousel:
  "instagram_single_workflow e c p fp f account \<noteq>
   instagram_carousel_workflow e' c' p' fps account'"
proof
  assume eq: "instagram_single_workflow e c p fp f account =
    instagram_carousel_workflow e' c' p' fps account'"
  have "\<exists>x\<in>set (fst (instagram_single_workflow e c p fp f account)).
      \<exists>a q cap u t. x = CreateInstagramContainer a q cap u t False"
    by (simp add: instagram_single_workflow_def Let_def)
  moreover have "\<forall>x\<in>set (fst (instagram_carousel_workflow e' c' p' fps account')).
      \<forall>a q cap u t. x \<noteq> CreateInstagramContainer a q cap u t False"
    by (auto simp: instagram_carousel_workflow_def Let_def)
  ultimately show False unfolding eq by blast
qed

text \<open>
  A publish call that fails: the carousel chain reaches its \<^verbatim>\<open>.catch\<close>, the single-item
  chain does not, and the account stays at \<open>processing\<close>.
\<close>

lemma publish_failure_on_each_path:
  "instagramAccountIdToProcessingState
     (replay (sequential (processSocialMediaPost env_publish_down one_account)) one_account) =
     [(''iga'', Processing)] \<and>
   instagramAccountIdToProcessingState
     (replay (sequential (processSocialMediaPost env_publish_down carousel_post)) carousel_post) =
     [(''iga'', Error)]"
  by code_simp

section \<open>The state mappings at the end of a run\<close>

lemma replay_append: "replay (xs @ ys) c = replay ys (replay xs c)"
  by (simp add: replay_def)

lemma replay_Cons: "replay (ev # tr) c = replay tr (apply_event ev c)"
  by (simp add: replay_def)

lemma replay_Nil: "replay [] c = c"
  by (simp add: replay_def)

lemma apply_event_instagram:
  "instagramAccountIdToProcessingState (apply_event ev c) =
     (case ev of SetInstagramAccountIdToProcessingState v \<Rightarrow> v
      | _ \<Rightarrow> instagramAccountIdToProcessingState c)"
  by (cases ev) (simp_all add: setInstagramAccountIdToProcessingState_def
      setYoutubeChannelIdToProcessingState_def)

lemma apply_event_youtube:
  "youtubeChannelIdToProcessingState (apply_event ev c) =
     (case ev of SetYoutubeChannelIdToProcessingState v \<Rightarrow> v
      | _ \<Rightarrow> youtubeChannelIdToProcessingState c)"
  by (cases ev) (simp_all add: setInstagramAccountIdToProcessingState_def
      setYoutubeChannelIdToProcessingState_def)

lemma replay_instagram_cong:
  "instagramAccountIdToProcessingState c1 = instagramAccountIdToProcessingState c2 \<Longrightarrow>
   instagramAccountIdToProcessingState (replay tr c1) =
   instagramAccountIdToProcessingState (replay tr c2)"
proof (induction tr arbitrary: c1 c2)
  case Nil
  then show ?case by (simp add: replay_Nil)
next
  case (Cons ev tr)
  have "instagramAccountIdToProcessingState (apply_event ev c1) =
        instagramAccountIdToProcessingState (apply_event ev c2)"
    using Cons.prems by (simp add: apply_event_instagram split: event.splits)
  from Cons.IH [OF this] show ?case by (simp add: replay_Cons)
qed

lemma replay_youtube_cong:
  "youtubeChannelIdToProcessingState c1 = youtubeChannelIdToProcessingState c2 \<Longrightarrow>
   youtubeChannelIdToProcessingState (replay tr c1) =
   youtubeChannelIdToProcessingState (replay tr c2)"
proof (induction tr arbitrary: c1 c2)
  case Nil
  then show ?case by (simp add: replay_Nil)
next
  case (Cons ev tr)
  have "youtubeChannelIdToProcessingState (apply_event ev c1) =
        youtubeChannelIdToProcessingState (apply_event ev c2)"
    using Cons.prems by (simp add: apply_event_youtube split: event.splits)
  from Cons.IH [OF this] show ?case by (simp add: replay_Cons)
qed

lemma replay_instagram_filter:
  "instagramAccountIdToProcessingState (replay tr c) =
   instagramAccountIdToProcessingState (replay (filter is_instagram_write tr) c)"
proof (induction tr arbitrary: c)
  case Nil
  then show ?case by simp
next
  case (Cons ev tr)
  show ?case
  proof (cases "is_instagram_write ev")
    case True
    with Cons.IH [of "apply_event ev c"] show ?thesis by (simp add: replay_Cons)
  next
    case False
    then have "instagramAccountIdToProcessingState (apply_event ev c) =
        instagramAccountIdToProcessingState c"
      by (cases ev) (simp_all add: setInstagramAccountIdToProcessingState_def
          setYoutubeChannelIdToProcessingState_def)
    from replay_instagram_cong [OF this] False Cons.IH [of c] show ?thesis
      by (simp add: replay_Cons)
  qed
qed

lemma replay_youtube_filter:
  "youtubeChannelIdToProcessingState (replay tr c) =
   youtubeChannelIdToProcessingState (replay (filter is_youtube_write tr) c)"
proof (induction tr arbitrary: c)
  case Nil
  then show ?case by simp
next
  case (Cons ev tr)
  show ?case
  proof (cases "is_youtube_write ev")
    case True
    with Cons.IH [of "apply_event ev c"] show ?thesis by (simp add: replay_Cons)
  next
    case False
    then have "youtubeChannelIdToProcessingState (apply_event ev c) =
        youtubeChannelIdToProcessingState c"
      by (cases ev) (simp_all add: setInstagramAccountIdToProcessingState_def
          setYoutubeChannelIdToProcessingState_def)
    from replay_youtube_cong [OF this] False Cons.IH [of c] show ?thesis
      by (simp add: replay_Cons)
  qed
qed

lemma filter_concat_one:
  assumes "i < length xss" and "\<forall>j<length xss. j \<noteq> i \<longrightarrow> filter P (xss ! j) = []"
  shows "filter P (concat xss) = filter P (xss ! i)"
  using is_interleaving_concat assms by (rule is_interleaving_filter_one)

lemma phase_filter_one:
  assumes t: "is_trace [start_all ws] t" and i: "i < length ws"
    and others: "\<forall>j<length ws. j \<noteq> i \<longrightarrow>
                   filter P (fst (ws ! j)) = [] \<and> filter P (snd (ws ! j)) = []"
  shows "filter P t = filter P (fst (ws ! i)) @ filter P (snd (ws ! i))"
proof -
  from t obtain ys where tt: "t = fst (start_all ws) @ ys"
    and ys: "is_interleaving (snd (start_all ws)) ys"
    unfolding is_trace_Cons is_trace.simps(1) by auto
  have "filter P (concat (map fst ws)) = filter P (map fst ws ! i)"
    using i others by (intro filter_concat_one) simp_all
  then have a: "filter P (fst (start_all ws)) = filter P (fst (ws ! i))"
    using i by (simp add: start_all_def)
  have "filter P ys = filter P (map snd ws ! i)"
    using ys i others by (intro is_interleaving_filter_one) (simp_all add: start_all_def)
  then have b: "filter P ys = filter P (snd (ws ! i))" using i by simp
  from a b show ?thesis unfolding tt by simp
qed

lemma phase_filter_none:
  assumes t: "is_trace [start_all ws] t"
    and none: "\<forall>w\<in>set ws. filter P (fst w) = [] \<and> filter P (snd w) = []"
  shows "filter P t = []"
proof -
  from t have "set t = (\<Union>w\<in>set ws. set (fst w) \<union> set (snd w))"
    by (simp only: is_trace_set set_sequential_start_all)
  with none have "\<forall>x\<in>set t. \<not> P x" by (auto simp: filter_empty_conv)
  then show ?thesis by (rule filter_empty_set)
qed

lemma phase_writes_left:
  assumes t: "is_trace [start_all (map W xs @ map Y ys)] t"
    and right: "\<forall>y\<in>set ys. filter P (fst (Y y)) = [] \<and> filter P (snd (Y y)) = []"
  shows "(xs = [] \<longrightarrow> filter P t = []) \<and>
         (\<forall>x. xs = [x] \<longrightarrow> filter P t = filter P (fst (W x)) @ filter P (snd (W x)))"
proof (intro conjI allI impI)
  assume "xs = []"
  with t right show "filter P t = []"
    by (intro phase_filter_none [of "map W xs @ map Y ys"]) auto
next
  fix x assume x: "xs = [x]"
  let ?ws = "map W xs @ map Y ys"
  have others: "\<forall>j<length ?ws. j \<noteq> 0 \<longrightarrow>
                   filter P (fst (?ws ! j)) = [] \<and> filter P (snd (?ws ! j)) = []"
  proof (intro allI impI)
    fix j assume j: "j < length ?ws" "j \<noteq> 0"
    then obtain k where k: "j = Suc k" by (cases j) auto
    with j x have "k < length ys" by simp
    then have "?ws ! j = Y (ys ! k)" "ys ! k \<in> set ys" using k x by simp_all
    with right show "filter P (fst (?ws ! j)) = [] \<and> filter P (snd (?ws ! j)) = []"
      by simp
  qed
  have "0 < length ?ws" using x by simp
  from phase_filter_one [OF t this others] x
  show "filter P t = filter P (fst (W x)) @ filter P (snd (W x))" by simp
qed

lemma phase_writes_right:
  assumes t: "is_trace [start_all (map W xs @ map Y ys)] t"
    and left: "\<forall>x\<in>set xs. filter P (fst (W x)) = [] \<and> filter P (snd (W x)) = []"
  shows "(ys = [] \<longrightarrow> filter P t = []) \<and>
         (\<forall>y. ys = [y] \<longrightarrow> filter P t = filter P (fst (Y y)) @ filter P (snd (Y y)))"
proof (intro conjI allI impI)
  assume "ys = []"
  with t left show "filter P t = []"
    by (intro phase_filter_none [of "map W xs @ map Y ys"]) auto
next
  fix y assume y: "ys = [y]"
  let ?ws = "map W xs @ map Y ys"
  have others: "\<forall>j<length ?ws. j \<noteq> length xs \<longrightarrow>
                   filter P (fst (?ws ! j)) = [] \<and> filter P (snd (?ws ! j)) = []"
  proof (intro allI impI)
    fix j assume j: "j < length ?ws" "j \<noteq> length xs"
    with y have "j < length xs" by simp
    then have "?ws ! j = W (xs ! j)" "xs ! j \<in> set xs" by (simp_all add: nth_append)
    with left show "filter P (fst (?ws ! j)) = [] \<and> filter P (snd (?ws ! j)) = []"
      by simp
  qed
  have i: "length xs < length ?ws" using y by simp
  have "?ws ! length xs = Y y" using y by (simp add: nth_append)
  with phase_filter_one [OF t i others]
  show "filter P t = filter P (fst (Y y)) @ filter P (snd (Y y))" by simp
qed

lemma instagram_single_workflow_writes:
  assumes "\<forall>cid a u. publishInstagramMediaContainer e cid a u \<noteq> None"
  shows "\<exists>s. (s = Posted \<or> s = Error) \<and>
           filter is_instagram_write (fst (instagram_single_workflow e c p fp f account)) @
           filter is_instagram_write (snd (instagram_single_workflow e c p fp f account)) =
             [SetInstagramAccountIdToProcessingState
                [(instagram_business_account_id account, Processing)],
              SetInstagramAccountIdToProcessingState
                [(instagram_business_account_id account, s)]]"
proof (cases "createInstagramContainer e (instagram_business_account_id account) fp
    (Some (caption c)) (userId c) (post_type (file_type f)) False")
  case None
  then show ?thesis by (simp add: instagram_single_workflow_def Let_def)
next
  case (Some cid)
  from assms obtain m where
    "publishInstagramMediaContainer e cid (instagram_business_account_id account) (userId c)
       = Some m"
    by (metis option.exhaust)
  with Some show ?thesis by (simp add: instagram_single_workflow_def Let_def)
qed

lemma instagram_single_workflow_no_youtube_write:
  "filter is_youtube_write (fst (instagram_single_workflow e c p fp f account)) = [] \<and>
   filter is_youtube_write (snd (instagram_single_workflow e c p fp f account)) = []"
  by (auto simp: instagram_single_workflow_def Let_def split: option.splits)

lemma youtube_workflow_writes:
  assumes "\<forall>ch f t u q. fetch_youtube_post e ch f t u q \<noteq> FetchRejected"
  shows "\<exists>s. (s = Posted \<or> s = Error) \<and>
           filter is_youtube_write (fst (youtube_workflow e c p f channel)) @
           filter is_youtube_write (snd (youtube_workflow e c p f channel)) =
             [SetYoutubeChannelIdToProcessingState [(channel_id channel, Processing)],
              SetYoutubeChannelIdToProcessingState [(channel_id channel, s)]]"
proof -
  from assms obtain ok where
    "fetch_youtube_post e (channel_id channel) f (youtubeTitle c) (userId c) p =
       FetchResponse ok"
    by (metis fetch_result.exhaust)
  then show ?thesis by (simp add: youtube_workflow_def Let_def)
qed

lemma youtube_workflow_no_instagram_write:
  "filter is_instagram_write (fst (youtube_workflow e c p f channel)) = [] \<and>
   filter is_instagram_write (snd (youtube_workflow e c p f channel)) = []"
  by (auto simp: youtube_workflow_def Let_def split: fetch_result.splits)

lemma carousel_requests_no_write:
  "filter is_instagram_write (map (\<lambda>(filePath, postType).
         CreateInstagramContainer a filePath None u (post_type postType) True) fps) = [] \<and>
   filter is_youtube_write (map (\<lambda>(filePath, postType).
         CreateInstagramContainer a filePath None u (post_type postType) True) fps) = []"
  by (induction fps) auto

lemma instagram_carousel_workflow_writes:
  "\<exists>s. (s = Posted \<or> s = Error) \<and>
           filter is_instagram_write (fst (instagram_carousel_workflow e c p fps account)) @
           filter is_instagram_write (snd (instagram_carousel_workflow e c p fps account)) =
             [SetInstagramAccountIdToProcessingState
                [(instagram_business_account_id account, Processing)],
              SetInstagramAccountIdToProcessingState
                [(instagram_business_account_id account, s)]]"
  by (auto simp: instagram_carousel_workflow_def Let_def carousel_requests_no_write
      split: option.splits)

lemma instagram_carousel_workflow_no_youtube_write:
  "filter is_youtube_write (fst (instagram_carousel_workflow e c p fps account)) = [] \<and>
   filter is_youtube_write (snd (instagram_carousel_workflow e c p fps account)) = []"
  by (auto simp: instagram_carousel_workflow_def Let_def carousel_requests_no_write
      split: option.splits)

lemma instagram_state_of_writes:
  "(filter is_instagram_write tr = [] \<longrightarrow>
      instagramAccountIdToProcessingState (replay tr c) = instagramAccountIdToProcessingState c) \<and>
   (filter is_instagram_write tr =
      [SetInstagramAccountIdToProcessingState v, SetInstagramAccountIdToProcessingState v'] \<longrightarrow>
      instagramAccountIdToProcessingState (replay tr c) = v')"
  by (subst (1 2) replay_instagram_filter)
    (auto simp: replay_Cons replay_Nil setInstagramAccountIdToProcessingState_def)

lemma youtube_state_of_writes:
  "(filter is_youtube_write tr = [] \<longrightarrow>
      youtubeChannelIdToProcessingState (replay tr c) = youtubeChannelIdToProcessingState c) \<and>
   (filter is_youtube_write tr =
      [SetYoutubeChannelIdToProcessingState v, SetYoutubeChannelIdToProcessingState v'] \<longrightarrow>
      youtubeChannelIdToProcessingState (replay tr c) = v')"
  by (subst (1 2) replay_youtube_filter)
    (auto simp: replay_Cons replay_Nil setYoutubeChannelIdToProcessingState_def)

lemma upload_not_write:
  "is_upload_event ev \<Longrightarrow> \<not> is_instagram_write ev \<and> \<not> is_youtube_write ev"
  by (cases ev) simp_all

lemma promise_all_ok: "\<forall>r\<in>set rs. \<not> isl r \<Longrightarrow> \<exists>vs. promise_all rs = Inr vs"
proof (induction rs)
  case Nil
  then show ?case by simp
next
  case (Cons r rs)
  then obtain vs where "promise_all rs = Inr vs" by auto
  moreover from Cons.prems obtain v where "r = Inr v" by (cases r) auto
  ultimately show ?case by simp
qed

lemma single_split:
  assumes one: "length (files c) = 1"
    and post: "createSocialMediaPost e (userId c) = Some p"
    and uploads: "\<forall>i<length (files c). \<not> upload_fails e c p i"
    and run: "is_trace (processSocialMediaPost e c) tr"
  shows "\<exists>pre t2 fp f. tr = pre @ t2 \<and>
           filter is_instagram_write pre = [] \<and> filter is_youtube_write pre = [] \<and>
           is_trace [start_all
             (map (instagram_single_workflow e c p fp f) (selectedInstagramAccounts c) @
              map (youtube_workflow e c p f) (selectedYoutubeChannels c))] t2"
proof -
  from one obtain entry where fs: "files c = [entry]" by (cases "files c") auto
  let ?f = "entry_file entry"
  let ?up = "uploadSocialMediaPostFile e (userId c) ?f 0 p"
  from uploads fs have "\<not> isl (snd ?up)" by (simp add: upload_fails_def)
  then obtain fp where fp: "snd ?up = Inr fp" by (cases "snd ?up") auto
  let ?ws = "map (instagram_single_workflow e c p fp ?f) (selectedInstagramAccounts c) @
             map (youtube_workflow e c p ?f) (selectedYoutubeChannels c)"
  have br: "branch_of c = SinglePost" using one by (simp add: branch_of_def)
  have ph: "processSocialMediaPost e c =
      ([([CreateSocialMediaPost (userId c)], [])] @ [start_all [fst ?up]]) @ [start_all ?ws]"
    using post fp by (simp add: processSocialMediaPost_def br processSingleSocialMediaPost_def
        fs Let_def)
  from run obtain t0 t1 t2 where tr: "tr = (t0 @ t1) @ t2"
    and t0: "is_trace [([CreateSocialMediaPost (userId c)], [])] t0"
    and t1: "is_trace [start_all [fst ?up]] t1"
    and t2: "is_trace [start_all ?ws] t2"
    unfolding ph is_trace_append by blast
  from t0 have t0': "t0 = [CreateSocialMediaPost (userId c)]"
    by (simp only: is_trace_single_phase_no_later)
  from t1 have "set t1 = set (fst (fst ?up)) \<union> set (snd (fst ?up))"
    by (simp add: is_trace_set set_sequential_start_all)
  then have "\<forall>ev\<in>set t1. is_upload_event ev" using upload_task_events by blast
  then have "\<forall>ev\<in>set (t0 @ t1). \<not> is_instagram_write ev \<and> \<not> is_youtube_write ev"
    using upload_not_write t0' by auto
  then have "filter is_instagram_write (t0 @ t1) = [] \<and> filter is_youtube_write (t0 @ t1) = []"
    by (simp add: filter_empty_conv)
  with tr t2 show ?thesis by blast
qed

lemma upload_not_youtube_event: "is_upload_event ev \<Longrightarrow> \<not> is_youtube_event ev"
  by (cases ev) simp_all

lemma carousel_requests_no_youtube_event:
  "filter is_youtube_event (map (\<lambda>(filePath, postType).
         CreateInstagramContainer a filePath None u (post_type postType) True) fps) = []"
  by (induction fps) auto

lemma instagram_carousel_workflow_no_youtube_event:
  "filter is_youtube_event (fst (instagram_carousel_workflow e c p fps account)) = [] \<and>
   filter is_youtube_event (snd (instagram_carousel_workflow e c p fps account)) = []"
  by (auto simp: instagram_carousel_workflow_def Let_def carousel_requests_no_youtube_event
      split: option.splits)

lemma carousel_split:
  assumes many: "length (files c) > 1"
    and post: "createSocialMediaPost e (userId c) = Some p"
    and uploads: "\<forall>i<length (files c). \<not> upload_fails e c p i"
    and run: "is_trace (processSocialMediaPost e c) tr"
  shows "\<exists>pre t2 fps. tr = pre @ t2 \<and>
           filter is_instagram_write pre = [] \<and> filter is_youtube_write pre = [] \<and>
           filter is_youtube_event pre = [] \<and>
           is_trace [start_all
             (map (instagram_carousel_workflow e c p fps) (selectedInstagramAccounts c))] t2"
proof -
  let ?ups = "upload_all e c p"
  have "\<forall>r\<in>set (map snd ?ups). \<not> isl r"
  proof
    fix r assume "r \<in> set (map snd ?ups)"
    then obtain i where i: "i < length (files c)" "r = snd (?ups ! i)"
      by (auto simp: in_set_conv_nth length_upload_all)
    with upload_all_nth [OF i(1), of e p] uploads show "\<not> isl r" by simp
  qed
  then obtain fps where fps: "promise_all (map snd ?ups) = Inr fps"
    using promise_all_ok by blast
  let ?ws = "map (instagram_carousel_workflow e c p fps) (selectedInstagramAccounts c)"
  have br: "branch_of c = CarouselPost" using many by (simp add: branch_of_def)
  have ph: "processSocialMediaPost e c =
      ([([CreateSocialMediaPost (userId c)], [])] @ [start_all (map fst ?ups)]) @ [start_all ?ws]"
    using post fps by (simp add: processSocialMediaPost_def br processCarouselSocialMediaPost_def
        Let_def)
  from run obtain t0 t1 t2 where tr: "tr = (t0 @ t1) @ t2"
    and t0: "is_trace [([CreateSocialMediaPost (userId c)], [])] t0"
    and t1: "is_trace [start_all (map fst ?ups)] t1"
    and t2: "is_trace [start_all ?ws] t2"
    unfolding ph is_trace_append by blast
  from t0 have t0': "t0 = [CreateSocialMediaPost (userId c)]"
    by (simp only: is_trace_single_phase_no_later)
  from t1 have "set t1 = (\<Union>w\<in>set (map fst ?ups). set (fst w) \<union> set (snd w))"
    by (simp only: is_trace_set set_sequential_start_all)
  then have "\<forall>ev\<in>set t1. is_upload_event ev"
    using upload_all_events [of _ e c p] by auto
  then have "\<forall>ev\<in>set (t0 @ t1). \<not> is_instagram_write ev \<and> \<not> is_youtube_write ev \<and>
      \<not> is_youtube_event ev"
    using upload_not_write upload_not_youtube_event t0' by auto
  then have "filter is_instagram_write (t0 @ t1) = [] \<and> filter is_youtube_write (t0 @ t1) = [] \<and>
      filter is_youtube_event (t0 @ t1) = []"
    by (simp add: filter_empty_conv)
  with tr t2 show ?thesis by blast
qed

lemma at_most_one: "length xs \<le> 1 \<Longrightarrow> xs = [] \<or> (\<exists>x. xs = [x])"
  by (cases xs) auto

section \<open>Selecting destinations\<close>

text \<open>
  The earlier revision and the YouTube tiles compare the same column on both sides, so a
  selection without a repeated key keeps none.
\<close>

lemma toggleInstagramAccount_part_000_distinct:
  assumes "distinct (map account_id prev)"
  shows "distinct (map account_id (toggleInstagramAccount_part_000 account prev))"
proof (cases "find (\<lambda>acc. account_id acc = account_id account) prev")
  case None
  then have "account_id account \<notin> account_id ` set prev"
    by (auto simp: find_None_iff)
  with None assms show ?thesis
    by (simp add: toggleInstagramAccount_part_000_def)
next
  case (Some acc)
  with assms show ?thesis
    by (simp add: toggleInstagramAccount_part_000_def distinct_map_filter)
qed

lemma toggleYoutubeChannel_distinct:
  assumes "distinct (map channel_id prev)"
  shows "distinct (map channel_id (toggleYoutubeChannel channel prev))"
proof (cases "find (\<lambda>acc. channel_id acc = channel_id channel) prev")
  case None
  then have "channel_id channel \<notin> channel_id ` set prev"
    by (auto simp: find_None_iff)
  with None assms show ?thesis
    by (simp add: toggleYoutubeChannel_def)
next
  case (Some acc)
  with assms show ?thesis
    by (simp add: toggleYoutubeChannel_def distinct_map_filter)
qed

text \<open>
  C9 (the selected Instagram accounts never hold two entries with the same business
  account id; a click on a selected account removes it). The handler of the current
  revision looks for the clicked account by comparing the row key \<^verbatim>\<open>acc.id\<close> of the
  selected entries with the \<^verbatim>\<open>instagram_business_account_id\<close> of the clicked one. For
  an account whose two columns differ the second click finds nothing and appends the
  account again.
\<close>

theorem C9_second_click_duplicates:
  "clicks [account_a, account_a] = [account_a, account_a] \<and>
   \<not> distinct (map instagram_business_account_id (clicks [account_a, account_a]))"
  by code_simp

section \<open>The state mappings\<close>

text \<open>
  C1 (a state write of one destination leaves the entry of every other destination
  unchanged). With two Instagram accounts selected, the account \<open>iga\<close> is marked
  \<open>processing\<close> by its own workflow; the next event of the run is the write that marks
  \<open>igb\<close>, and after it the mapping has no entry for \<open>iga\<close>: the setter is called with a
  one-key object, which becomes the whole mapping.
\<close>

theorem C1_sibling_entry_removed:
  "is_trace (processSocialMediaPost env_ok two_accounts)
     (sequential (processSocialMediaPost env_ok two_accounts)) \<and>
   map_of (instagramAccountIdToProcessingState
     (replay (take 5 (sequential (processSocialMediaPost env_ok two_accounts))) two_accounts))
     ''iga'' = Some Processing \<and>
   sequential (processSocialMediaPost env_ok two_accounts) ! 5 =
     SetInstagramAccountIdToProcessingState [(''igb'', Processing)] \<and>
   map_of (instagramAccountIdToProcessingState
     (replay (take 6 (sequential (processSocialMediaPost env_ok two_accounts))) two_accounts))
     ''iga'' = None"
  by code_simp

text \<open>
  C3 (an entry that holds \<open>posted\<close> or \<open>error\<close> never changes and is never removed).
  In the same run the entry of \<open>iga\<close> is \<open>posted\<close> after eleven events, and is gone at
  the end of the run, when \<open>igb\<close> has been marked \<open>posted\<close>.
\<close>

theorem C3_terminal_entry_removed:
  "length (sequential (processSocialMediaPost env_ok two_accounts)) = 15 \<and>
   map_of (instagramAccountIdToProcessingState
     (replay (take 11 (sequential (processSocialMediaPost env_ok two_accounts))) two_accounts))
     ''iga'' = Some Posted \<and>
   instagramAccountIdToProcessingState
     (replay (sequential (processSocialMediaPost env_ok two_accounts)) two_accounts) =
     [(''igb'', Posted)]"
  by code_simp

section \<open>YouTube\<close>

text \<open>
  C8 (after the YouTube call settles the channel is \<open>posted\<close> or \<open>error\<close>, also when
  the request itself rejects). The current revision has no handler for a rejected
  \<^verbatim>\<open>fetch\<close>: the workflow of the channel has no later event, and the run ends with the
  channel at \<open>processing\<close>. The earlier revision marks the channel \<open>error\<close> there.
\<close>

theorem C8_rejected_fetch_stays_processing:
  "snd (youtube_workflow env_youtube_down youtube_only ''p1'' (entry_file video_entry) channel_y)
     = [] \<and>
   youtubeChannelIdToProcessingState
     (replay (sequential (processSocialMediaPost env_youtube_down youtube_only)) youtube_only) =
     [(''yt1'', Processing)] \<and>
   snd (youtube_workflow_part_000 env_youtube_down youtube_only ''p1'' (entry_file video_entry)
          channel_y) = [SetYoutubeChannelIdToProcessingState [(''yt1'', Error)]]"
  by code_simp

section \<open>The publish entry point on an empty selection\<close>

text \<open>
  C10: when the form action runs with no file selected, the post record is still
  requested (it is requested before the file count is read), and nothing else happens:
  the only event of the run is that request, so there is no upload, no container, no
  workflow and no state write. The submit button is disabled for such a component, and
  nothing in the action itself stops the call.
\<close>

theorem C10_empty_selection:
  assumes "files c = []" and "is_trace (processSocialMediaPost e c) tr"
  shows "tr = [CreateSocialMediaPost (userId c)] \<and> replay tr c = c \<and> submit_disabled c"
proof -
  from assms(1) have "branch_of c = NoPost" by (simp add: branch_of_def)
  then have "processSocialMediaPost e c = [([CreateSocialMediaPost (userId c)], [])]"
    by (simp add: processSocialMediaPost_def split: option.split)
  with assms(2) have tr: "tr = [CreateSocialMediaPost (userId c)]"
    by (simp only: is_trace_single_phase_no_later)
  moreover have "replay [CreateSocialMediaPost (userId c)] c = c"
    by (simp add: replay_def)
  moreover have "submit_disabled c"
    using assms(1) by (simp add: submit_disabled_def)
  ultimately show ?thesis by simp
qed

theorem C10_empty_selection_witness:
  "files mounted = [] \<and>
   is_trace (processSocialMediaPost env_ok mounted) [CreateSocialMediaPost ''u''] \<and>
   replay [CreateSocialMediaPost ''u''] mounted = mounted \<and> submit_disabled mounted"
proof -
  have h1: "files mounted = []" by code_simp
  have h2: "is_trace (processSocialMediaPost env_ok mounted) [CreateSocialMediaPost ''u'']"
    by code_simp
  from C10_empty_selection [OF h1 h2] h1 h2 show ?thesis by blast
qed


section \<open>Upload before any destination\<close>

text \<open>
  C7: once the post record exists, (1) an item whose storage write or metadata insert
  fails makes its upload throw; (2) if the upload of any item throws, no run contains an
  event of a destination workflow (no container request, no state write, nothing); and
  (3) in every run, no upload event comes after an event of a destination workflow: the
  workflows start only when every upload is over.
\<close>

theorem C7_upload_barrier:
  assumes "createSocialMediaPost e (userId c) = Some p"
    and "is_trace (processSocialMediaPost e c) tr"
  shows "(\<forall>i<length (files c). storage_or_insert_fails e c p i \<longrightarrow> upload_fails e c p i) \<and>
         ((\<exists>i<length (files c). upload_fails e c p i) \<longrightarrow>
            (\<forall>ev\<in>set tr. \<not> is_destination_event ev)) \<and>
         (\<forall>i j. i < j \<and> j < length tr \<and> is_destination_event (tr ! i) \<longrightarrow>
            \<not> is_upload_event (tr ! j))"
proof -
  from entry_shape [OF assms] obtain ups dst
    where tr: "tr = CreateSocialMediaPost (userId c) # ups @ dst"
      and ups: "\<forall>ev\<in>set ups. is_upload_event ev"
      and dst: "\<forall>ev\<in>set dst. is_destination_event ev"
      and ok: "dst \<noteq> [] \<longrightarrow> (\<forall>i<length (files c). \<not> upload_fails e c p i)"
    by blast
  have a: "\<forall>i<length (files c). storage_or_insert_fails e c p i \<longrightarrow> upload_fails e c p i"
    by (simp add: storage_or_insert_fails_throws)
  have b: "(\<exists>i<length (files c). upload_fails e c p i) \<longrightarrow>
            (\<forall>ev\<in>set tr. \<not> is_destination_event ev)"
  proof
    assume "\<exists>i<length (files c). upload_fails e c p i"
    with ok have "dst = []" by blast
    with tr ups show "\<forall>ev\<in>set tr. \<not> is_destination_event ev"
      by (auto simp: upload_not_destination)
  qed
  have c: "\<forall>i j. i < j \<and> j < length tr \<and> is_destination_event (tr ! i) \<longrightarrow>
            \<not> is_upload_event (tr ! j)"
  proof (intro allI impI)
    fix i j assume h: "i < j \<and> j < length tr \<and> is_destination_event (tr ! i)"
    let ?pre = "CreateSocialMediaPost (userId c) # ups"
    have tr': "tr = ?pre @ dst" using tr by simp
    have "\<not> i < length ?pre"
    proof
      assume "i < length ?pre"
      then have "tr ! i \<in> set ?pre" unfolding tr' by (rule nth_append_left_mem)
      with ups have "\<not> is_destination_event (tr ! i)"
        by (auto simp: upload_not_destination)
      with h show False by simp
    qed
    with h have "\<not> j < length ?pre" by simp
    moreover from h have "j < length (?pre @ dst)" unfolding tr' by simp
    ultimately have "tr ! j \<in> set dst"
      unfolding tr' by (rule nth_append_right_mem)
    with dst have "is_destination_event (tr ! j)" by blast
    then show "\<not> is_upload_event (tr ! j)"
      using upload_not_destination by blast
  qed
  from a b c show ?thesis by blast
qed

theorem C7_upload_barrier_witness:
  "createSocialMediaPost env_storage_down (userId carousel_post) = Some ''p1'' \<and>
   is_trace (processSocialMediaPost env_storage_down carousel_post)
     (sequential (processSocialMediaPost env_storage_down carousel_post)) \<and>
   storage_or_insert_fails env_storage_down carousel_post ''p1'' 1 \<and>
   upload_fails env_storage_down carousel_post ''p1'' 1 \<and>
   filter is_destination_event
     (sequential (processSocialMediaPost env_storage_down carousel_post)) = [] \<and>
   createSocialMediaPost env_ok (userId carousel_post) = Some ''p1'' \<and>
   is_trace (processSocialMediaPost env_ok carousel_post)
     (sequential (processSocialMediaPost env_ok carousel_post)) \<and>
   is_destination_event (sequential (processSocialMediaPost env_ok carousel_post) ! 5) \<and>
   \<not> is_upload_event (sequential (processSocialMediaPost env_ok carousel_post) ! 6)"
proof -
  have h1: "createSocialMediaPost env_storage_down (userId carousel_post) = Some ''p1''"
    by code_simp
  have h2: "is_trace (processSocialMediaPost env_storage_down carousel_post)
     (sequential (processSocialMediaPost env_storage_down carousel_post))"
    by (rule is_trace_sequential)
  have h3: "storage_or_insert_fails env_storage_down carousel_post ''p1'' 1" by code_simp
  have h4: "(1::nat) < length (files carousel_post)" by code_simp
  have k1: "createSocialMediaPost env_ok (userId carousel_post) = Some ''p1''" by code_simp
  have k2: "is_trace (processSocialMediaPost env_ok carousel_post)
     (sequential (processSocialMediaPost env_ok carousel_post))"
    by (rule is_trace_sequential)
  have k3: "is_destination_event (sequential (processSocialMediaPost env_ok carousel_post) ! 5)"
    by code_simp
  have k4: "(5::nat) < 6 \<and> 6 < length (sequential (processSocialMediaPost env_ok carousel_post))"
    by code_simp
  from C7_upload_barrier [OF h1 h2] h3 h4
  have "upload_fails env_storage_down carousel_post ''p1'' 1 \<and>
   (\<forall>ev\<in>set (sequential (processSocialMediaPost env_storage_down carousel_post)).
      \<not> is_destination_event ev)" by blast
  then have f: "upload_fails env_storage_down carousel_post ''p1'' 1 \<and>
   filter is_destination_event
     (sequential (processSocialMediaPost env_storage_down carousel_post)) = []"
    by (simp add: filter_empty_conv)
  from C7_upload_barrier [OF k1 k2] k3 k4
  have g: "\<not> is_upload_event (sequential (processSocialMediaPost env_ok carousel_post) ! 6)"
    by blast
  from h1 h2 h3 f k1 k2 k3 g show ?thesis by blast
qed


section \<open>The single-item path\<close>

text \<open>
  C5: with exactly one file selected, the entry point takes the single-item branch, and
  the branch is a function of the number of files alone. In every run no aggregate
  container is requested, and every container request has the carousel-item flag off
  and carries the caption; when the post record and the upload succeed, the container
  requests of the run are exactly one per selected Instagram account, in the order of
  the selection.
\<close>

theorem C5_single_item_path:
  assumes "length (files c) = 1"
    and "is_trace (processSocialMediaPost e c) tr"
  shows "branch_of c = SinglePost \<and>
         (\<forall>c1 c2. length (files c1) = length (files c2) \<longrightarrow> branch_of c1 = branch_of c2) \<and>
         (\<forall>ev\<in>set tr. single_item_event (caption c) ev) \<and>
         (\<forall>p fp. createSocialMediaPost e (userId c) = Some p \<and>
              snd (uploadSocialMediaPostFile e (userId c) (entry_file (hd (files c))) 0 p) = Inr fp \<longrightarrow>
            filter is_container_request tr =
              map (\<lambda>account. CreateInstagramContainer (instagram_business_account_id account) fp
                     (Some (caption c)) (userId c)
                     (post_type (file_type (entry_file (hd (files c))))) False)
                (selectedInstagramAccounts c))"
proof -
  from assms(1) obtain entry where fs: "files c = [entry]"
    by (cases "files c") auto
  have br: "branch_of c = SinglePost" using assms(1) by (simp add: branch_of_def)
  have dep: "\<forall>c1 c2. length (files c1) = length (files c2) \<longrightarrow> branch_of c1 = branch_of c2"
    by (simp add: branch_of_def)
  have evrq: "(\<forall>ev\<in>set tr. single_item_event (caption c) ev) \<and>
    (\<forall>p fp. createSocialMediaPost e (userId c) = Some p \<and>
              snd (uploadSocialMediaPostFile e (userId c) (entry_file (hd (files c))) 0 p) = Inr fp \<longrightarrow>
            filter is_container_request tr =
              map (\<lambda>account. CreateInstagramContainer (instagram_business_account_id account) fp
                     (Some (caption c)) (userId c)
                     (post_type (file_type (entry_file (hd (files c))))) False)
                (selectedInstagramAccounts c))"
  proof (cases "createSocialMediaPost e (userId c)")
    case None
    then have "processSocialMediaPost e c = [([CreateSocialMediaPost (userId c)], [])]"
      by (simp add: processSocialMediaPost_def)
    with assms(2) have "tr = [CreateSocialMediaPost (userId c)]"
      by (simp only: is_trace_single_phase_no_later)
    with None show ?thesis by simp
  next
    case (Some p)
    then have ph: "processSocialMediaPost e c =
        [([CreateSocialMediaPost (userId c)], [])] @ processSingleSocialMediaPost e c p"
      by (simp add: processSocialMediaPost_def br)
    from assms(2) obtain t where tr: "tr = CreateSocialMediaPost (userId c) # t"
      and t: "is_trace (processSingleSocialMediaPost e c p) t"
      unfolding ph is_trace_append is_trace_single_phase_no_later by auto
    from single_trace_events [OF fs t] tr Some fs show ?thesis by simp
  qed
  from br dep evrq show ?thesis by blast
qed

theorem C5_single_item_path_witness:
  "length (files two_accounts) = 1 \<and>
   is_trace (processSocialMediaPost env_ok two_accounts)
     (sequential (processSocialMediaPost env_ok two_accounts)) \<and>
   length (files youtube_only) = length (files two_accounts) \<and>
   branch_of youtube_only = branch_of two_accounts \<and>
   CreateInstagramContainer ''iga'' ''u/p1/0.mp4'' (Some ''hi'') ''u'' ''video'' False
     \<in> set (sequential (processSocialMediaPost env_ok two_accounts)) \<and>
   single_item_event (caption two_accounts)
     (CreateInstagramContainer ''iga'' ''u/p1/0.mp4'' (Some ''hi'') ''u'' ''video'' False) \<and>
   createSocialMediaPost env_ok (userId two_accounts) = Some ''p1'' \<and>
   snd (uploadSocialMediaPostFile env_ok (userId two_accounts)
          (entry_file (hd (files two_accounts))) 0 ''p1'') = Inr ''u/p1/0.mp4'' \<and>
   filter is_container_request (sequential (processSocialMediaPost env_ok two_accounts)) =
     map (\<lambda>account. CreateInstagramContainer (instagram_business_account_id account)
            ''u/p1/0.mp4'' (Some (caption two_accounts)) (userId two_accounts)
            (post_type (file_type (entry_file (hd (files two_accounts))))) False)
       (selectedInstagramAccounts two_accounts)"
proof -
  have h1: "length (files two_accounts) = 1" by code_simp
  have h2: "is_trace (processSocialMediaPost env_ok two_accounts)
     (sequential (processSocialMediaPost env_ok two_accounts))"
    by (rule is_trace_sequential)
  have h3: "length (files youtube_only) = length (files two_accounts)" by code_simp
  have h4: "CreateInstagramContainer ''iga'' ''u/p1/0.mp4'' (Some ''hi'') ''u'' ''video'' False
     \<in> set (sequential (processSocialMediaPost env_ok two_accounts))" by code_simp
  have h5: "createSocialMediaPost env_ok (userId two_accounts) = Some ''p1''" by code_simp
  have h6: "snd (uploadSocialMediaPostFile env_ok (userId two_accounts)
          (entry_file (hd (files two_accounts))) 0 ''p1'') = Inr ''u/p1/0.mp4''" by code_simp
  from C5_single_item_path [OF h1 h2] h1 h2 h3 h4 h5 h6 show ?thesis by blast
qed


section \<open>The carousel path\<close>

text \<open>
  C4: for a selection of N > 1 files whose post record and uploads succeed, and a selected
  Instagram account whose steps all succeed, the workflow of the account is exactly: the
  write of \<open>processing\<close>; N container requests, one per uploaded file in the order of
  the selection, each with the carousel-item flag on and no caption; one status check on
  the N container ids together; one request for an aggregate container that lists the N
  ids and carries the caption; one status check on the aggregate; one publish of the
  aggregate; then the persist call and the write of \<open>posted\<close>. Every run of the entry
  point contains these events in this order.
\<close>

theorem C4_carousel_order:
  assumes many: "length (files c) > 1"
    and post: "createSocialMediaPost e (userId c) = Some p"
    and uploads: "promise_all (map snd (upload_all e c p)) = Inr filePaths"
    and account: "account \<in> set (selectedInstagramAccounts c)"
    and a: "a = instagram_business_account_id account"
    and items: "those (map (\<lambda>(filePath, postType).
                  createInstagramContainer e a filePath None (userId c) (post_type postType) True)
                  filePaths) = Some ids"
    and items_ready: "checkInstagramContainerStatus e ids a (userId c)"
    and aggregate: "createInstagramCarouselContainer e ids a (userId c) (caption c) = Some agg"
    and aggregate_ready: "checkInstagramContainerStatus e [agg] a (userId c)"
    and published: "publishInstagramMediaContainer e agg a (userId c) = Some mediaId"
    and run: "is_trace (processSocialMediaPost e c) tr"
  shows "length filePaths = length (files c) \<and> length ids = length (files c) \<and>
         fst (instagram_carousel_workflow e c p filePaths account) @
         snd (instagram_carousel_workflow e c p filePaths account) =
           SetInstagramAccountIdToProcessingState [(a, Processing)] #
           map (\<lambda>(filePath, postType).
                  CreateInstagramContainer a filePath None (userId c) (post_type postType) True)
             filePaths @
           [CheckInstagramContainerStatus ids a (userId c),
            CreateInstagramCarouselContainer ids a (userId c) (caption c),
            CheckInstagramContainerStatus [agg] a (userId c),
            PublishInstagramMediaContainer agg a (userId c),
            SaveInstagramId mediaId p (caption c) (userId c),
            SetInstagramAccountIdToProcessingState [(a, Posted)]] \<and>
         subseq (fst (instagram_carousel_workflow e c p filePaths account) @
                 snd (instagram_carousel_workflow e c p filePaths account)) tr"
proof -
  let ?w = "instagram_carousel_workflow e c p filePaths account"
  let ?ws = "map (instagram_carousel_workflow e c p filePaths) (selectedInstagramAccounts c)"
  have n1: "length filePaths = length (files c)"
    using promise_all_length [OF uploads] by (simp add: length_upload_all)
  have n2: "length ids = length (files c)"
    using those_length [OF items] n1 by simp
  have w: "fst ?w @ snd ?w =
           SetInstagramAccountIdToProcessingState [(a, Processing)] #
           map (\<lambda>(filePath, postType).
                  CreateInstagramContainer a filePath None (userId c) (post_type postType) True)
             filePaths @
           [CheckInstagramContainerStatus ids a (userId c),
            CreateInstagramCarouselContainer ids a (userId c) (caption c),
            CheckInstagramContainerStatus [agg] a (userId c),
            PublishInstagramMediaContainer agg a (userId c),
            SaveInstagramId mediaId p (caption c) (userId c),
            SetInstagramAccountIdToProcessingState [(a, Posted)]]"
    using items items_ready aggregate aggregate_ready published
    by (simp add: instagram_carousel_workflow_def Let_def a)
  have br: "branch_of c = CarouselPost" using many by (simp add: branch_of_def)
  have ph: "processSocialMediaPost e c =
      ([([CreateSocialMediaPost (userId c)], [])] @ [start_all (map fst (upload_all e c p))]) @
      [start_all ?ws]"
    using post uploads by (simp add: processSocialMediaPost_def br
        processCarouselSocialMediaPost_def Let_def)
  from run obtain t1 t2 where tr: "tr = t1 @ t2" and t2: "is_trace [start_all ?ws] t2"
    unfolding ph is_trace_append [of "_ @ _"] by blast
  have "?w \<in> set ?ws" using account by simp
  from start_all_subseq [OF t2 this] have "subseq (fst ?w @ snd ?w) (t1 @ t2)"
    by (rule subseq_drop_many)
  with n1 n2 w tr show ?thesis by simp
qed

theorem C4_carousel_order_witness:
  "length (files carousel_post) > 1 \<and>
   createSocialMediaPost env_ok (userId carousel_post) = Some ''p1'' \<and>
   promise_all (map snd (upload_all env_ok carousel_post ''p1'')) =
     Inr [(''u/p1/0.jpg'', ''image''), (''u/p1/1.mp4'', ''video'')] \<and>
   account_a \<in> set (selectedInstagramAccounts carousel_post) \<and>
   is_trace (processSocialMediaPost env_ok carousel_post)
     (sequential (processSocialMediaPost env_ok carousel_post)) \<and>
   subseq
     [SetInstagramAccountIdToProcessingState [(''iga'', Processing)],
      CreateInstagramContainer ''iga'' ''u/p1/0.jpg'' None ''u'' ''image'' True,
      CreateInstagramContainer ''iga'' ''u/p1/1.mp4'' None ''u'' ''video'' True,
      CheckInstagramContainerStatus [''cu/p1/0.jpg'', ''cu/p1/1.mp4''] ''iga'' ''u'',
      CreateInstagramCarouselContainer [''cu/p1/0.jpg'', ''cu/p1/1.mp4''] ''iga'' ''u'' ''hi'',
      CheckInstagramContainerStatus [''agg''] ''iga'' ''u'',
      PublishInstagramMediaContainer ''agg'' ''iga'' ''u'',
      SaveInstagramId ''m'' ''p1'' ''hi'' ''u'',
      SetInstagramAccountIdToProcessingState [(''iga'', Posted)]]
     (sequential (processSocialMediaPost env_ok carousel_post))"
proof -
  let ?fps = "[(''u/p1/0.jpg'', ''image''), (''u/p1/1.mp4'', ''video'')]"
  let ?ids = "[''cu/p1/0.jpg'', ''cu/p1/1.mp4'']"
  have h1: "length (files carousel_post) > 1" by code_simp
  have h2: "createSocialMediaPost env_ok (userId carousel_post) = Some ''p1''" by code_simp
  have h3: "promise_all (map snd (upload_all env_ok carousel_post ''p1'')) = Inr ?fps"
    by code_simp
  have h4: "account_a \<in> set (selectedInstagramAccounts carousel_post)" by code_simp
  have h5: "''iga'' = instagram_business_account_id account_a" by code_simp
  have h6: "those (map (\<lambda>(filePath, postType).
        createInstagramContainer env_ok ''iga'' filePath None (userId carousel_post)
          (post_type postType) True) ?fps) = Some ?ids" by code_simp
  have h7: "checkInstagramContainerStatus env_ok ?ids ''iga'' (userId carousel_post)"
    by code_simp
  have h8: "createInstagramCarouselContainer env_ok ?ids ''iga'' (userId carousel_post)
      (caption carousel_post) = Some ''agg''" by code_simp
  have h9: "checkInstagramContainerStatus env_ok [''agg''] ''iga'' (userId carousel_post)"
    by code_simp
  have h10: "publishInstagramMediaContainer env_ok ''agg'' ''iga'' (userId carousel_post)
      = Some ''m''" by code_simp
  have h11: "is_trace (processSocialMediaPost env_ok carousel_post)
     (sequential (processSocialMediaPost env_ok carousel_post))"
    by (rule is_trace_sequential)
  have u: "userId carousel_post = ''u''" and cp: "caption carousel_post = ''hi''"
    and pt: "post_type ''image'' = ''image''" "post_type ''video'' = ''video''"
    by code_simp+
  from C4_carousel_order [OF h1 h2 h3 h4 h5 h6 h7 h8 h9 h10 h11]
  have "subseq
     (SetInstagramAccountIdToProcessingState [(''iga'', Processing)] #
      map (\<lambda>(filePath, postType).
             CreateInstagramContainer ''iga'' filePath None (userId carousel_post)
               (post_type postType) True) ?fps @
      [CheckInstagramContainerStatus ?ids ''iga'' (userId carousel_post),
       CreateInstagramCarouselContainer ?ids ''iga'' (userId carousel_post)
         (caption carousel_post),
       CheckInstagramContainerStatus [''agg''] ''iga'' (userId carousel_post),
       PublishInstagramMediaContainer ''agg'' ''iga'' (userId carousel_post),
       SaveInstagramId ''m'' ''p1'' (caption carousel_post) (userId carousel_post),
       SetInstagramAccountIdToProcessingState [(''iga'', Posted)]])
     (sequential (processSocialMediaPost env_ok carousel_post))"
    by metis
  then have "subseq
     [SetInstagramAccountIdToProcessingState [(''iga'', Processing)],
      CreateInstagramContainer ''iga'' ''u/p1/0.jpg'' None ''u'' ''image'' True,
      CreateInstagramContainer ''iga'' ''u/p1/1.mp4'' None ''u'' ''video'' True,
      CheckInstagramContainerStatus ?ids ''iga'' ''u'',
      CreateInstagramCarouselContainer ?ids ''iga'' ''u'' ''hi'',
      CheckInstagramContainerStatus [''agg''] ''iga'' ''u'',
      PublishInstagramMediaContainer ''agg'' ''iga'' ''u'',
      SaveInstagramId ''m'' ''p1'' ''hi'' ''u'',
      SetInstagramAccountIdToProcessingState [(''iga'', Posted)]]
     (sequential (processSocialMediaPost env_ok carousel_post))"
    by (simp only: u cp pt list.map prod.case append_Cons append_Nil)
  with h1 h2 h3 h4 h11 show ?thesis by blast
qed


section \<open>Failures of an Instagram workflow\<close>

text \<open>
  C6 as stated (any failing step, the persist of the media id included, marks the
  destination \<open>error\<close>; a destination whose persist fails is never marked \<open>posted\<close>)
  does not hold: the promise of \<^verbatim>\<open>saveInstagramId\<close> is dropped, and \<open>posted\<close> is written
  next. Here the persist call of the run fails and the run ends with the account at
  \<open>posted\<close>.
\<close>

theorem C6_persist_failure_marked_posted:
  "step_failed env_persist_down (SaveInstagramId ''m'' ''p1'' ''hi'' ''u'') \<and>
   SaveInstagramId ''m'' ''p1'' ''hi'' ''u''
     \<in> set (sequential (processSocialMediaPost env_persist_down one_account)) \<and>
   is_trace (processSocialMediaPost env_persist_down one_account)
     (sequential (processSocialMediaPost env_persist_down one_account)) \<and>
   instagramAccountIdToProcessingState
     (replay (sequential (processSocialMediaPost env_persist_down one_account)) one_account) =
     [(''iga'', Posted)]"
  by code_simp

text \<open>
  C6, amended: take the workflow of an Instagram account, on the carousel path or on the
  single-item path, and any event of it. If the event is a call that fails, and it is not
  the persist call (nor, on the single-item path, the publish call), then what the
  workflow does after it is to write \<open>error\<close> for the account and nothing else, apart from
  the sibling item-container requests that were issued in the same batch; and the
  workflow never writes \<open>posted\<close>. If the event is the persist call, what follows it is
  the write of \<open>posted\<close>, whether the persist succeeds or not.
\<close>

theorem C6_failed_step_marks_error:
  assumes w: "w = instagram_carousel_workflow e c p fps account \<or>
              w = instagram_single_workflow e c p fp f account"
    and ev: "ev \<in> set (fst w @ snd w)"
  shows "(step_failed e ev \<and> \<not> is_persist ev \<and>
            (is_publish ev \<longrightarrow> w = instagram_carousel_workflow e c p fps account) \<longrightarrow>
          filter (\<lambda>x. \<not> is_container_request x) (after ev (fst w @ snd w)) =
            [SetInstagramAccountIdToProcessingState
               [(instagram_business_account_id account, Error)]] \<and>
          SetInstagramAccountIdToProcessingState
            [(instagram_business_account_id account, Posted)] \<notin> set (fst w @ snd w)) \<and>
         (is_persist ev \<longrightarrow>
          after ev (fst w @ snd w) =
            [SetInstagramAccountIdToProcessingState
               [(instagram_business_account_id account, Posted)]])"
  using w
proof
  assume c: "w = instagram_carousel_workflow e c p fps account"
  from ev instagram_carousel_workflow_failure [of ev e c p fps account]
    instagram_carousel_workflow_persist [of ev e c p fps account]
  show ?thesis unfolding c by blast
next
  assume s: "w = instagram_single_workflow e c p fp f account"
  have "is_publish ev \<longrightarrow> w \<noteq> instagram_carousel_workflow e c p fps account"
    unfolding s using single_not_carousel by blast
  with ev instagram_single_workflow_failure [of ev e c p fp f account]
    instagram_single_workflow_persist [of ev e c p fp f account]
  show ?thesis unfolding s by blast
qed

theorem C6_failed_step_marks_error_witness:
  "CreateInstagramContainer ''iga'' ''u/p1/1.mp4'' None ''u'' ''video'' True
     \<in> set (fst (instagram_carousel_workflow env_item_refused carousel_post ''p1''
                    [(''u/p1/0.jpg'', ''image''), (''u/p1/1.mp4'', ''video'')] account_a) @
            snd (instagram_carousel_workflow env_item_refused carousel_post ''p1''
                    [(''u/p1/0.jpg'', ''image''), (''u/p1/1.mp4'', ''video'')] account_a)) \<and>
   step_failed env_item_refused
     (CreateInstagramContainer ''iga'' ''u/p1/1.mp4'' None ''u'' ''video'' True) \<and>
   filter (\<lambda>x. \<not> is_container_request x)
     (after (CreateInstagramContainer ''iga'' ''u/p1/1.mp4'' None ''u'' ''video'' True)
        (fst (instagram_carousel_workflow env_item_refused carousel_post ''p1''
                [(''u/p1/0.jpg'', ''image''), (''u/p1/1.mp4'', ''video'')] account_a) @
         snd (instagram_carousel_workflow env_item_refused carousel_post ''p1''
                [(''u/p1/0.jpg'', ''image''), (''u/p1/1.mp4'', ''video'')] account_a))) =
     [SetInstagramAccountIdToProcessingState
        [(instagram_business_account_id account_a, Error)]] \<and>
   SaveInstagramId ''m'' ''p1'' ''hi'' ''u''
     \<in> set (fst (instagram_single_workflow env_persist_down one_account ''p1'' ''u/p1/0.mp4''
                    (entry_file video_entry) account_a) @
            snd (instagram_single_workflow env_persist_down one_account ''p1'' ''u/p1/0.mp4''
                    (entry_file video_entry) account_a)) \<and>
   is_persist (SaveInstagramId ''m'' ''p1'' ''hi'' ''u'') \<and>
   after (SaveInstagramId ''m'' ''p1'' ''hi'' ''u'')
     (fst (instagram_single_workflow env_persist_down one_account ''p1'' ''u/p1/0.mp4''
             (entry_file video_entry) account_a) @
      snd (instagram_single_workflow env_persist_down one_account ''p1'' ''u/p1/0.mp4''
             (entry_file video_entry) account_a)) =
     [SetInstagramAccountIdToProcessingState
        [(instagram_business_account_id account_a, Posted)]]"
proof -
  let ?fps = "[(''u/p1/0.jpg'', ''image''), (''u/p1/1.mp4'', ''video'')]"
  let ?w = "instagram_carousel_workflow env_item_refused carousel_post ''p1'' ?fps account_a"
  let ?ev = "CreateInstagramContainer ''iga'' ''u/p1/1.mp4'' None ''u'' ''video'' True"
  let ?v = "instagram_single_workflow env_persist_down one_account ''p1'' ''u/p1/0.mp4''
              (entry_file video_entry) account_a"
  let ?sv = "SaveInstagramId ''m'' ''p1'' ''hi'' ''u''"
  have h1: "?w = instagram_carousel_workflow env_item_refused carousel_post ''p1'' ?fps account_a \<or>
            ?w = instagram_single_workflow env_item_refused carousel_post ''p1'' ''u/p1/0.mp4''
                   (entry_file video_entry) account_a" by simp
  have h2: "?ev \<in> set (fst ?w @ snd ?w)" by code_simp
  have h3: "step_failed env_item_refused ?ev" by code_simp
  have h4: "\<not> is_persist ?ev" "\<not> is_publish ?ev" by simp_all
  have k1: "?v = instagram_carousel_workflow env_persist_down one_account ''p1'' ?fps account_a \<or>
            ?v = instagram_single_workflow env_persist_down one_account ''p1'' ''u/p1/0.mp4''
                   (entry_file video_entry) account_a" by simp
  have k2: "?sv \<in> set (fst ?v @ snd ?v)" by code_simp
  have k3: "is_persist ?sv" by simp
  from C6_failed_step_marks_error [OF h1 h2] h3 h4
  have a: "filter (\<lambda>x. \<not> is_container_request x) (after ?ev (fst ?w @ snd ?w)) =
     [SetInstagramAccountIdToProcessingState
        [(instagram_business_account_id account_a, Error)]]" by blast
  from C6_failed_step_marks_error [OF k1 k2] k3
  have b: "after ?sv (fst ?v @ snd ?v) =
     [SetInstagramAccountIdToProcessingState
        [(instagram_business_account_id account_a, Posted)]]" by blast
  from h2 h3 a k2 k3 b show ?thesis by blast
qed


section \<open>The state mappings when every workflow has settled\<close>

text \<open>
  C2 as stated (for every non-empty selection and every set of destinations, one entry per
  selected destination, each \<open>posted\<close> or \<open>error\<close>) does not hold: the carousel path
  starts no YouTube workflow. With two files, one Instagram account and one YouTube
  channel selected, and everything succeeding, the run ends with the account at
  \<open>posted\<close> and no entry for the channel.
\<close>

theorem C2_carousel_leaves_youtube_unmarked:
  "files carousel_post \<noteq> [] \<and>
   channel_y \<in> set (selectedYoutubeChannels carousel_post) \<and>
   is_trace (processSocialMediaPost env_ok carousel_post)
     (sequential (processSocialMediaPost env_ok carousel_post)) \<and>
   instagramAccountIdToProcessingState
     (replay (sequential (processSocialMediaPost env_ok carousel_post)) carousel_post) =
     [(''iga'', Posted)] \<and>
   map_of (youtubeChannelIdToProcessingState
     (replay (sequential (processSocialMediaPost env_ok carousel_post)) carousel_post))
     (channel_id channel_y) = None"
  by code_simp

text \<open>
  C2, amended. Take a non-empty selection and a component whose two mappings are empty,
  with at most one Instagram account and at most one YouTube channel selected, and let
  the post record and every upload succeed. Then at the end of every run:

  \<^item> for a single-item selection, if no publish call fails, the Instagram mapping has
    exactly one entry per selected account, \<open>posted\<close> or \<open>error\<close>; and if the YouTube
    request does not reject, the YouTube mapping has exactly one entry per selected
    channel, \<open>posted\<close> or \<open>error\<close>;

  \<^item> for a selection of several items, the Instagram mapping has exactly one entry per
    selected account, \<open>posted\<close> or \<open>error\<close>; the run has no event of a YouTube
    workflow (no request and no write), and the YouTube mapping is still empty.
\<close>

theorem C2_settled_state:
  assumes nonempty: "files c \<noteq> []"
    and fresh: "instagramAccountIdToProcessingState c = []"
               "youtubeChannelIdToProcessingState c = []"
    and post: "createSocialMediaPost e (userId c) = Some p"
    and uploads: "\<forall>i<length (files c). \<not> upload_fails e c p i"
    and one_account: "length (selectedInstagramAccounts c) \<le> 1"
    and one_channel: "length (selectedYoutubeChannels c) \<le> 1"
    and run: "is_trace (processSocialMediaPost e c) tr"
  shows "(length (files c) = 1 \<longrightarrow>
            ((\<forall>cid a u. publishInstagramMediaContainer e cid a u \<noteq> None) \<longrightarrow>
             map fst (instagramAccountIdToProcessingState (replay tr c)) =
               map instagram_business_account_id (selectedInstagramAccounts c) \<and>
             (\<forall>s\<in>set (map snd (instagramAccountIdToProcessingState (replay tr c))).
                s = Posted \<or> s = Error)) \<and>
            ((\<forall>ch f t u q. fetch_youtube_post e ch f t u q \<noteq> FetchRejected) \<longrightarrow>
             map fst (youtubeChannelIdToProcessingState (replay tr c)) =
               map channel_id (selectedYoutubeChannels c) \<and>
             (\<forall>s\<in>set (map snd (youtubeChannelIdToProcessingState (replay tr c))).
                s = Posted \<or> s = Error))) \<and>
         (length (files c) \<noteq> 1 \<longrightarrow>
            map fst (instagramAccountIdToProcessingState (replay tr c)) =
              map instagram_business_account_id (selectedInstagramAccounts c) \<and>
            (\<forall>s\<in>set (map snd (instagramAccountIdToProcessingState (replay tr c))).
               s = Posted \<or> s = Error) \<and>
            filter is_youtube_event tr = [] \<and>
            youtubeChannelIdToProcessingState (replay tr c) = [])"
proof (cases "length (files c) = 1")
  case True
  from single_split [OF True post uploads run] obtain pre t2 fp f
    where tr: "tr = pre @ t2"
      and pre: "filter is_instagram_write pre = []" "filter is_youtube_write pre = []"
      and t2: "is_trace [start_all
             (map (instagram_single_workflow e c p fp f) (selectedInstagramAccounts c) @
              map (youtube_workflow e c p f) (selectedYoutubeChannels c))] t2"
    by blast
  have ig: "map fst (instagramAccountIdToProcessingState (replay tr c)) =
           map instagram_business_account_id (selectedInstagramAccounts c) \<and>
         (\<forall>s\<in>set (map snd (instagramAccountIdToProcessingState (replay tr c))).
            s = Posted \<or> s = Error)"
    if pub: "\<forall>cid a u. publishInstagramMediaContainer e cid a u \<noteq> None"
  proof -
    have right: "\<forall>y\<in>set (selectedYoutubeChannels c).
        filter is_instagram_write (fst (youtube_workflow e c p f y)) = [] \<and>
        filter is_instagram_write (snd (youtube_workflow e c p f y)) = []"
      using youtube_workflow_no_instagram_write by blast
    note l = phase_writes_left [OF t2 right]
    from at_most_one [OF one_account] show ?thesis
    proof
      assume n: "selectedInstagramAccounts c = []"
      with l have "filter is_instagram_write tr = []" unfolding tr using pre by simp
      with instagram_state_of_writes [of tr c] fresh n show ?thesis by simp
    next
      assume "\<exists>x. selectedInstagramAccounts c = [x]"
      then obtain x where x: "selectedInstagramAccounts c = [x]" by blast
      from instagram_single_workflow_writes [OF pub, of c p fp f x] obtain s
        where s: "s = Posted \<or> s = Error"
          and w: "filter is_instagram_write (fst (instagram_single_workflow e c p fp f x)) @
                  filter is_instagram_write (snd (instagram_single_workflow e c p fp f x)) =
             [SetInstagramAccountIdToProcessingState
                [(instagram_business_account_id x, Processing)],
              SetInstagramAccountIdToProcessingState
                [(instagram_business_account_id x, s)]]"
        by blast
      from l x w have "filter is_instagram_write tr =
             [SetInstagramAccountIdToProcessingState
                [(instagram_business_account_id x, Processing)],
              SetInstagramAccountIdToProcessingState
                [(instagram_business_account_id x, s)]]"
        unfolding tr using pre by simp
      with instagram_state_of_writes [of tr c]
      have "instagramAccountIdToProcessingState (replay tr c) =
          [(instagram_business_account_id x, s)]" by blast
      with x s show ?thesis by simp
    qed
  qed
  have yt: "map fst (youtubeChannelIdToProcessingState (replay tr c)) =
                 map channel_id (selectedYoutubeChannels c) \<and>
               (\<forall>s\<in>set (map snd (youtubeChannelIdToProcessingState (replay tr c))).
                  s = Posted \<or> s = Error)"
    if fetch: "\<forall>ch f t u q. fetch_youtube_post e ch f t u q \<noteq> FetchRejected"
  proof -
    have left: "\<forall>x\<in>set (selectedInstagramAccounts c).
        filter is_youtube_write (fst (instagram_single_workflow e c p fp f x)) = [] \<and>
        filter is_youtube_write (snd (instagram_single_workflow e c p fp f x)) = []"
      using instagram_single_workflow_no_youtube_write by blast
    note r = phase_writes_right [OF t2 left]
    from at_most_one [OF one_channel] show ?thesis
    proof
      assume n: "selectedYoutubeChannels c = []"
      with r have "filter is_youtube_write tr = []" unfolding tr using pre by simp
      with youtube_state_of_writes [of tr c] fresh n show ?thesis by simp
    next
      assume "\<exists>y. selectedYoutubeChannels c = [y]"
      then obtain y where y: "selectedYoutubeChannels c = [y]" by blast
      from youtube_workflow_writes [OF fetch, of c p f y] obtain s
        where s: "s = Posted \<or> s = Error"
          and w: "filter is_youtube_write (fst (youtube_workflow e c p f y)) @
                  filter is_youtube_write (snd (youtube_workflow e c p f y)) =
             [SetYoutubeChannelIdToProcessingState [(channel_id y, Processing)],
              SetYoutubeChannelIdToProcessingState [(channel_id y, s)]]"
        by blast
      from r y w have "filter is_youtube_write tr =
             [SetYoutubeChannelIdToProcessingState [(channel_id y, Processing)],
              SetYoutubeChannelIdToProcessingState [(channel_id y, s)]]"
        unfolding tr using pre by simp
      with youtube_state_of_writes [of tr c]
      have "youtubeChannelIdToProcessingState (replay tr c) = [(channel_id y, s)]" by blast
      with y s show ?thesis by simp
    qed
  qed
  from ig yt True show ?thesis by blast
next
  case False
  with nonempty have many: "length (files c) > 1" by (cases "files c") auto
  from carousel_split [OF many post uploads run] obtain pre t2 fps
    where tr: "tr = pre @ t2"
      and pre: "filter is_instagram_write pre = []" "filter is_youtube_write pre = []"
        "filter is_youtube_event pre = []"
      and t2: "is_trace [start_all
             (map (instagram_carousel_workflow e c p fps) (selectedInstagramAccounts c))] t2"
    by blast
  let ?ws = "map (instagram_carousel_workflow e c p fps) (selectedInstagramAccounts c)"
  have "\<forall>w\<in>set ?ws. filter is_youtube_write (fst w) = [] \<and> filter is_youtube_write (snd w) = []"
    using instagram_carousel_workflow_no_youtube_write by auto
  from phase_filter_none [OF t2 this] have "filter is_youtube_write tr = []"
    unfolding tr using pre by simp
  with youtube_state_of_writes [of tr c] fresh
  have yt: "youtubeChannelIdToProcessingState (replay tr c) = []" by simp
  have "\<forall>w\<in>set ?ws. filter is_youtube_event (fst w) = [] \<and> filter is_youtube_event (snd w) = []"
    using instagram_carousel_workflow_no_youtube_event by auto
  from phase_filter_none [OF t2 this] have ev: "filter is_youtube_event tr = []"
    unfolding tr using pre by simp
  have ig: "map fst (instagramAccountIdToProcessingState (replay tr c)) =
           map instagram_business_account_id (selectedInstagramAccounts c) \<and>
         (\<forall>s\<in>set (map snd (instagramAccountIdToProcessingState (replay tr c))).
            s = Posted \<or> s = Error)"
  proof -
    from at_most_one [OF one_account] show ?thesis
    proof
      assume n: "selectedInstagramAccounts c = []"
      then have "\<forall>w\<in>set ?ws. filter is_instagram_write (fst w) = [] \<and>
          filter is_instagram_write (snd w) = []" by simp
      from phase_filter_none [OF t2 this] have "filter is_instagram_write tr = []"
        unfolding tr using pre by simp
      with instagram_state_of_writes [of tr c] fresh n show ?thesis by simp
    next
      assume "\<exists>x. selectedInstagramAccounts c = [x]"
      then obtain x where x: "selectedInstagramAccounts c = [x]" by blast
      from instagram_carousel_workflow_writes [of e c p fps x] obtain s
        where s: "s = Posted \<or> s = Error"
          and w: "filter is_instagram_write (fst (instagram_carousel_workflow e c p fps x)) @
                  filter is_instagram_write (snd (instagram_carousel_workflow e c p fps x)) =
             [SetInstagramAccountIdToProcessingState
                [(instagram_business_account_id x, Processing)],
              SetInstagramAccountIdToProcessingState
                [(instagram_business_account_id x, s)]]"
        by blast
      have i: "0 < length ?ws" using x by simp
      have others: "\<forall>j<length ?ws. j \<noteq> 0 \<longrightarrow>
          filter is_instagram_write (fst (?ws ! j)) = [] \<and>
          filter is_instagram_write (snd (?ws ! j)) = []"
        using x by simp
      from phase_filter_one [OF t2 i others] x w
      have "filter is_instagram_write tr =
             [SetInstagramAccountIdToProcessingState
                [(instagram_business_account_id x, Processing)],
              SetInstagramAccountIdToProcessingState
                [(instagram_business_account_id x, s)]]"
        unfolding tr using pre by simp
      with instagram_state_of_writes [of tr c]
      have "instagramAccountIdToProcessingState (replay tr c) =
          [(instagram_business_account_id x, s)]" by blast
      with x s show ?thesis by simp
    qed
  qed
  from ig ev yt False show ?thesis by blast
qed

theorem C2_settled_state_witness:
  "files single_both \<noteq> [] \<and>
   createSocialMediaPost env_ok (userId single_both) = Some ''p1'' \<and>
   length (files single_both) = 1 \<and> \<not> upload_fails env_ok single_both ''p1'' 0 \<and>
   length (selectedInstagramAccounts single_both) \<le> 1 \<and>
   length (selectedYoutubeChannels single_both) \<le> 1 \<and>
   is_trace (processSocialMediaPost env_ok single_both)
     (sequential (processSocialMediaPost env_ok single_both)) \<and>
   map fst (instagramAccountIdToProcessingState
     (replay (sequential (processSocialMediaPost env_ok single_both)) single_both)) = [''iga''] \<and>
   Posted \<in> set (map snd (instagramAccountIdToProcessingState
     (replay (sequential (processSocialMediaPost env_ok single_both)) single_both))) \<and>
   map fst (youtubeChannelIdToProcessingState
     (replay (sequential (processSocialMediaPost env_ok single_both)) single_both)) = [''yt1''] \<and>
   length (files carousel_post) = 2 \<and>
   length (selectedYoutubeChannels carousel_post) = 1 \<and>
   is_trace (processSocialMediaPost env_ok carousel_post)
     (sequential (processSocialMediaPost env_ok carousel_post)) \<and>
   map fst (instagramAccountIdToProcessingState
     (replay (sequential (processSocialMediaPost env_ok carousel_post)) carousel_post)) =
     [''iga''] \<and>
   filter is_youtube_event (sequential (processSocialMediaPost env_ok carousel_post)) = [] \<and>
   youtubeChannelIdToProcessingState
     (replay (sequential (processSocialMediaPost env_ok carousel_post)) carousel_post) = []"
proof -
  let ?c = "single_both"
  let ?d = "carousel_post"
  have pub: "\<forall>cid a u. publishInstagramMediaContainer env_ok cid a u \<noteq> None"
    and fetch: "\<forall>ch f t u q. fetch_youtube_post env_ok ch f t u q \<noteq> FetchRejected"
    by (simp_all add: env_ok_def)
  have c1: "files ?c \<noteq> []" by code_simp
  have c2: "instagramAccountIdToProcessingState ?c = []" by code_simp
  have c3: "youtubeChannelIdToProcessingState ?c = []" by code_simp
  have c4: "createSocialMediaPost env_ok (userId ?c) = Some ''p1''" by code_simp
  have c5a: "length (files ?c) = 1" by code_simp
  have c5b: "\<not> upload_fails env_ok ?c ''p1'' 0" by code_simp
  have c5: "\<forall>i<length (files ?c). \<not> upload_fails env_ok ?c ''p1'' i"
    using c5a c5b by simp
  have c6: "length (selectedInstagramAccounts ?c) \<le> 1" by code_simp
  have c7: "length (selectedYoutubeChannels ?c) \<le> 1" by code_simp
  have c9: "is_trace (processSocialMediaPost env_ok ?c)
     (sequential (processSocialMediaPost env_ok ?c))" by (rule is_trace_sequential)
  have ca: "map instagram_business_account_id (selectedInstagramAccounts ?c) = [''iga'']"
    and cb: "map channel_id (selectedYoutubeChannels ?c) = [''yt1'']" by code_simp+
  have cp: "Posted \<in> set (map snd (instagramAccountIdToProcessingState
     (replay (sequential (processSocialMediaPost env_ok single_both)) single_both)))"
    by code_simp
  have d1: "files ?d \<noteq> []" by code_simp
  have d2: "instagramAccountIdToProcessingState ?d = []" by code_simp
  have d3: "youtubeChannelIdToProcessingState ?d = []" by code_simp
  have d4: "createSocialMediaPost env_ok (userId ?d) = Some ''p1''" by code_simp
  have d5a: "length (files ?d) = 2" by code_simp
  have d5b: "\<not> upload_fails env_ok ?d ''p1'' 0" "\<not> upload_fails env_ok ?d ''p1'' 1"
    by code_simp+
  have d5: "\<forall>i<length (files ?d). \<not> upload_fails env_ok ?d ''p1'' i"
    unfolding d5a using d5b by (simp add: less_Suc_eq numeral_2_eq_2)
  have d6: "length (selectedInstagramAccounts ?d) \<le> 1" by code_simp
  have d7a: "length (selectedYoutubeChannels ?d) = 1" by code_simp
  then have d7: "length (selectedYoutubeChannels ?d) \<le> 1" by simp
  have d9: "is_trace (processSocialMediaPost env_ok ?d)
     (sequential (processSocialMediaPost env_ok ?d))" by (rule is_trace_sequential)
  have da: "map instagram_business_account_id (selectedInstagramAccounts ?d) = [''iga'']"
    by code_simp
  have dn: "length (files ?d) \<noteq> 1" using d5a by simp
  from C2_settled_state [OF c1 c2 c3 c4 c5 c6 c7 c9] c5a pub fetch
  have "map fst (instagramAccountIdToProcessingState
     (replay (sequential (processSocialMediaPost env_ok ?c)) ?c)) =
       map instagram_business_account_id (selectedInstagramAccounts ?c) \<and>
     map fst (youtubeChannelIdToProcessingState
     (replay (sequential (processSocialMediaPost env_ok ?c)) ?c)) =
       map channel_id (selectedYoutubeChannels ?c)"
    by blast
  then have r1: "map fst (instagramAccountIdToProcessingState
     (replay (sequential (processSocialMediaPost env_ok ?c)) ?c)) = [''iga''] \<and>
     map fst (youtubeChannelIdToProcessingState
     (replay (sequential (processSocialMediaPost env_ok ?c)) ?c)) = [''yt1'']"
    unfolding ca cb .
  from C2_settled_state [OF d1 d2 d3 d4 d5 d6 d7 d9] dn
  have "map fst (instagramAccountIdToProcessingState
     (replay (sequential (processSocialMediaPost env_ok ?d)) ?d)) =
       map instagram_business_account_id (selectedInstagramAccounts ?d) \<and>
     filter is_youtube_event (sequential (processSocialMediaPost env_ok ?d)) = [] \<and>
     youtubeChannelIdToProcessingState
     (replay (sequential (processSocialMediaPost env_ok ?d)) ?d) = []"
    by blast
  then have r2: "map fst (instagramAccountIdToProcessingState
     (replay (sequential (processSocialMediaPost env_ok ?d)) ?d)) = [''iga''] \<and>
     filter is_youtube_event (sequential (processSocialMediaPost env_ok ?d)) = [] \<and>
     youtubeChannelIdToProcessingState
     (replay (sequential (processSocialMediaPost env_ok ?d)) ?d) = []"
    unfolding da .
  from c1 c4 c5a c5b c6 c7 c9 cp r1 d5a d7a d9 r2 show ?thesis by blast
qed

end
